theory Spec2Isabelle
  imports Main "HOL-Library.AList" "HOL-Library.Multiset"
begin

section \<open>Data model\<close>

text \<open>
  The agent core of the repository: \<^verbatim>\<open>server/agents/base-agent.ts\<close> (the worker with its
  task queue), \<^verbatim>\<open>server/agents/agent-manager.ts\<close> (the registry), the \<^verbatim>\<open>executeTask\<close>
  dispatch of \<^verbatim>\<open>InfrastructureAgent\<close> and \<^verbatim>\<open>LearningAgent\<close>, and the part of
  \<^verbatim>\<open>MemStorage\<close> they call.

  Conventions of the embedding.
  \<^item> A JavaScript \<^verbatim>\<open>number\<close> used as an id is a \<^typ>\<open>nat\<close>; a priority or a progress value
    is an \<^typ>\<open>int\<close> (NaN, infinities and fractions are outside the model).
  \<^item> \<^verbatim>\<open>payload: any\<close> and \<^verbatim>\<open>config\<close> are opaque; they are carried as a \<^typ>\<open>string\<close>.
  \<^item> \<^verbatim>\<open>createdAt\<close> and \<^verbatim>\<open>updatedAt\<close> (\<^verbatim>\<open>new Date()\<close>) are left out: no operation reads them.
  \<^item> A nullable field is an \<^typ>\<open>'a option\<close>, \<^verbatim>\<open>null\<close> being \<^term>\<open>None\<close>.
  \<^item> The \<^verbatim>\<open>metadata\<close> of a log record is absent or \<^verbatim>\<open>{ error: error.message }\<close>; it is the
    message, if any.
\<close>

record AgentTask =
  task_id :: string
  task_type :: string
  payload :: string
  priority :: int

record Agent =
  agent_id :: nat
  agent_name :: string
  agent_type :: string
  status :: string
  agent_currentTask :: "string option"
  progress :: int
  config :: string

record InsertAgent =
  ins_name :: string
  ins_type :: string
  ins_config :: string

record SystemLog =
  log_id :: nat
  level :: string
  message :: string
  log_source :: string
  log_agentId :: nat
  metadata :: "string option"

record Activity =
  act_id :: nat
  act_type :: string
  title :: string
  description :: "string option"
  act_status :: string
  act_agentId :: nat
  projectId :: "nat option"

section \<open>MemStorage\<close>

text \<open>
  \<^verbatim>\<open>agents: Map<number, Agent>\<close> is an association list in insertion order, because
  \<^verbatim>\<open>getAgents\<close> returns \<^verbatim>\<open>Array.from(this.agents.values())\<close> and \<^verbatim>\<open>assignTask\<close> takes the
  first match: \<^const>\<open>AList.update\<close> overwrites a present key in place and appends an absent
  one, as \<^verbatim>\<open>Map.set\<close> does. The logs and activities are only ever stored under the fresh
  key \<^verbatim>\<open>this.currentId++\<close>, so their maps are the lists of their values in insertion order.
\<close>

record MemStorage =
  agents :: "(nat \<times> Agent) list"
  activities :: "Activity list"
  systemLogs :: "SystemLog list"
  currentId :: nat

definition MemStorage_new :: MemStorage where
  "MemStorage_new = \<lparr>agents = [], activities = [], systemLogs = [], currentId = 1\<rparr>"

definition getAgent :: "nat \<Rightarrow> MemStorage \<Rightarrow> Agent option" where
  "getAgent i st = map_of (agents st) i"

definition getAgents :: "MemStorage \<Rightarrow> Agent list" where
  "getAgents st = map snd (agents st)"

definition getActiveAgents :: "MemStorage \<Rightarrow> Agent list" where
  "getActiveAgents st =
     filter (\<lambda>agent. status agent = ''running'' \<or> status agent = ''working'') (map snd (agents st))"

definition createAgent :: "InsertAgent \<Rightarrow> MemStorage \<Rightarrow> Agent \<times> MemStorage" where
  "createAgent insertAgent st =
     (let i = currentId st;
          agent = \<lparr>agent_id = i, agent_name = ins_name insertAgent,
                   agent_type = ins_type insertAgent, status = ''idle'',
                   agent_currentTask = None, progress = 0, config = ins_config insertAgent\<rparr>
      in (agent, st\<lparr>agents := AList.update i agent (agents st), currentId := Suc i\<rparr>))"

text \<open>
  \<^verbatim>\<open>updateAgent(id, updates)\<close> merges \<^verbatim>\<open>{ ...agent, ...updates }\<close> into a present record and
  does nothing for an absent one. The partial record \<^verbatim>\<open>updates\<close> is the function that
  overwrites the fields it names. Both callers drop the returned record.
\<close>

definition updateAgent :: "nat \<Rightarrow> (Agent \<Rightarrow> Agent) \<Rightarrow> MemStorage \<Rightarrow> MemStorage" where
  "updateAgent i updates st =
     (case map_of (agents st) i of
        None \<Rightarrow> st
      | Some agent \<Rightarrow> st\<lparr>agents := AList.update i (updates agent) (agents st)\<rparr>)"

definition createSystemLog ::
  "string \<Rightarrow> string \<Rightarrow> string \<Rightarrow> nat \<Rightarrow> string option \<Rightarrow> MemStorage \<Rightarrow> MemStorage" where
  "createSystemLog lv msg src aid md st =
     st\<lparr>systemLogs := systemLogs st @
           [\<lparr>log_id = currentId st, level = lv, message = msg, log_source = src,
             log_agentId = aid, metadata = md\<rparr>],
        currentId := Suc (currentId st)\<rparr>"

text \<open>
  \<^verbatim>\<open>createActivity\<close> of the storage, with the record that \<^verbatim>\<open>BaseAgent.createActivity\<close>
  passes: its status is always \<^verbatim>\<open>completed\<close> and its metadata empty.
\<close>

definition storage_createActivity ::
  "string \<Rightarrow> string \<Rightarrow> string option \<Rightarrow> nat \<Rightarrow> nat option \<Rightarrow> MemStorage \<Rightarrow> MemStorage" where
  "storage_createActivity ty ttl descr aid pid st =
     st\<lparr>activities := activities st @
           [\<lparr>act_id = currentId st, act_type = ty, title = ttl, description = descr,
             act_status = ''completed'', act_agentId = aid, projectId = pid\<rparr>],
        currentId := Suc (currentId st)\<rparr>"

section \<open>BaseAgent: the worker\<close>

text \<open>
  The three subclasses differ in \<^verbatim>\<open>executeTask\<close> only; \<open>cls\<close> is the class of the object
  (\<^verbatim>\<open>this.constructor.name\<close>). \<^verbatim>\<open>code-generator-agent.ts\<close> is not among the sources.

  \<^verbatim>\<open>processQueue\<close> is an \<^verbatim>\<open>async\<close> function that nobody awaits. Every \<^verbatim>\<open>await\<close> in it except
  \<^verbatim>\<open>await this.executeTask(...)\<close> waits for a \<^verbatim>\<open>MemStorage\<close> method, which has finished its
  work when it returns its promise; only a handler waits for the outside world. The model
  therefore runs \<^verbatim>\<open>processQueue\<close> from one call of \<^verbatim>\<open>executeTask\<close> to the next as one step,
  and lets other calls (\<^verbatim>\<open>start\<close>, \<^verbatim>\<open>stop\<close>, \<^verbatim>\<open>addTask\<close>, the handler's own reports) happen
  between these steps. The field \<open>executing\<close> is the model's record of the activations of
  \<^verbatim>\<open>processQueue\<close> that are suspended in \<^verbatim>\<open>executeTask\<close>: one task per activation, the
  argument of the pending call.
\<close>

datatype agent_class = CodeGeneratorAgent | InfrastructureAgent | LearningAgent

fun class_name :: "agent_class \<Rightarrow> string" where
  "class_name CodeGeneratorAgent = ''CodeGeneratorAgent''"
| "class_name InfrastructureAgent = ''InfrastructureAgent''"
| "class_name LearningAgent = ''LearningAgent''"

record BaseAgent =
  agentId :: nat
  cls :: agent_class
  isRunning :: bool
  taskQueue :: "AgentTask list"
  currentTask :: "AgentTask option"
  executing :: "AgentTask list"

definition BaseAgent_new :: "agent_class \<Rightarrow> nat \<Rightarrow> BaseAgent" where
  "BaseAgent_new c aid =
     \<lparr>agentId = aid, cls = c, isRunning = False, taskQueue = [], currentTask = None,
      executing = []\<rparr>"

text \<open>\<^verbatim>\<open>currentTask || null\<close>: an absent argument and the empty string both give \<^verbatim>\<open>null\<close>.\<close>

fun or_null :: "string option \<Rightarrow> string option" where
  "or_null None = None"
| "or_null (Some s) = (if s = [] then None else Some s)"

definition updateStatus :: "BaseAgent \<Rightarrow> string \<Rightarrow> string option \<Rightarrow> MemStorage \<Rightarrow> MemStorage" where
  "updateStatus w s ct st =
     updateAgent (agentId w) (\<lambda>a. a\<lparr>status := s, agent_currentTask := or_null ct\<rparr>) st"

definition updateProgress :: "BaseAgent \<Rightarrow> int \<Rightarrow> MemStorage \<Rightarrow> MemStorage" where
  "updateProgress w p st = updateAgent (agentId w) (\<lambda>a. a\<lparr>progress := p\<rparr>) st"

definition log :: "BaseAgent \<Rightarrow> string \<Rightarrow> string \<Rightarrow> string option \<Rightarrow> MemStorage \<Rightarrow> MemStorage" where
  "log w lv msg md st = createSystemLog lv msg (class_name (cls w)) (agentId w) md st"

definition createActivity ::
  "BaseAgent \<Rightarrow> string \<Rightarrow> string \<Rightarrow> string option \<Rightarrow> nat option \<Rightarrow> MemStorage \<Rightarrow> MemStorage" where
  "createActivity w ty ttl descr pid st = storage_createActivity ty ttl descr (agentId w) pid st"

text \<open>
  \<^verbatim>\<open>this.taskQueue.sort((a, b) => b.priority - a.priority)\<close>: \<^verbatim>\<open>Array.prototype.sort\<close> is a
  stable sort, here by descending priority.
\<close>

definition sort_queue :: "AgentTask list \<Rightarrow> AgentTask list" where
  "sort_queue q = sort_key (\<lambda>t. - priority t) q"

text \<open>
  \<^verbatim>\<open>processQueue\<close> from its call, or from the head of its loop, to the next call of
  \<^verbatim>\<open>executeTask\<close> or to its end.
\<close>

definition processQueue :: "BaseAgent \<times> MemStorage \<Rightarrow> BaseAgent \<times> MemStorage" where
  "processQueue s =
     (case s of (w, st) \<Rightarrow>
        if isRunning w then
          (case taskQueue w of
             t # q \<Rightarrow>
               (let w1 = w\<lparr>taskQueue := q, currentTask := Some t\<rparr>;
                    st1 = updateStatus w1 ''working'' (Some (task_type t)) st;
                    st2 = log w1 ''info'' (''Starting task: '' @ task_type t) None st1
                in (w1\<lparr>executing := executing w1 @ [t]\<rparr>, st2))
           | [] \<Rightarrow> (w, updateStatus w ''running'' None st))
        else (w, st))"

text \<open>
  What a handler does to the storage while it runs, through the hooks of \<^verbatim>\<open>BaseAgent\<close>:
  \<^verbatim>\<open>updateProgress(n)\<close>, \<^verbatim>\<open>log('info', ...)\<close> (no handler logs at another level) and
  \<^verbatim>\<open>createActivity(...)\<close>; \<open>OtherCreate\<close> is any other \<^verbatim>\<open>storage.create...\<close> call, which
  takes the next id. How the awaited \<^verbatim>\<open>executeTask\<close> ends: it returns, or it throws an
  error with a message.
\<close>

datatype report =
  Progress int | Info string | NewActivity string string "string option" "nat option" | OtherCreate

datatype outcome = Returned | Threw string

type_synonym behaviour = "report list \<times> outcome"

fun handler_report :: "report \<Rightarrow> BaseAgent \<times> MemStorage \<Rightarrow> BaseAgent \<times> MemStorage" where
  "handler_report (Progress n) (w, st) = (w, updateProgress w n st)"
| "handler_report (Info msg) (w, st) = (w, log w ''info'' msg None st)"
| "handler_report (NewActivity ty ttl descr pid) (w, st) = (w, createActivity w ty ttl descr pid st)"
| "handler_report OtherCreate (w, st) = (w, st\<lparr>currentId := Suc (currentId st)\<rparr>)"

text \<open>
  \<^verbatim>\<open>executeTask\<close> of the two subclasses in the sources: a \<^verbatim>\<open>switch\<close> on \<^verbatim>\<open>task.type\<close> that
  calls a private method for the kinds it knows and throws for every other kind. What the
  private method does with its collaborators is not modelled; \<open>h\<close> is what it reports and
  how it ends. For \<^const>\<open>CodeGeneratorAgent\<close>, whose source is absent, the whole call is
  left to \<open>h\<close>.
\<close>

definition executeTask :: "agent_class \<Rightarrow> AgentTask \<Rightarrow> behaviour \<Rightarrow> behaviour" where
  "executeTask c task h =
     (case c of
        InfrastructureAgent \<Rightarrow>
          if task_type task = ''generate_terraform'' then h
          else if task_type task = ''deploy_infrastructure'' then h
          else if task_type task = ''monitor_resources'' then h
          else ([], Threw (''Unknown task type: '' @ task_type task))
      | LearningAgent \<Rightarrow>
          if task_type task = ''analyze_commits'' then h
          else if task_type task = ''learn_patterns'' then h
          else if task_type task = ''suggest_improvements'' then h
          else ([], Threw (''Unknown task type: '' @ task_type task))
      | CodeGeneratorAgent \<Rightarrow> h)"

text \<open>
  The rest of the loop body, when the \<open>k\<close>-th suspended activation gets the outcome of its
  handler: the \<^verbatim>\<open>try\<close> block's last line or the \<^verbatim>\<open>catch\<close> block, then \<^verbatim>\<open>finally\<close>, then the
  loop again. Both log lines read \<^verbatim>\<open>this.currentTask.type\<close>; if another activation has
  set \<^verbatim>\<open>this.currentTask\<close> to \<^verbatim>\<open>null\<close> meanwhile, building the message throws a TypeError
  (in the \<^verbatim>\<open>try\<close> block, and then again in the \<^verbatim>\<open>catch\<close> block), nothing is logged,
  \<^verbatim>\<open>finally\<close> runs and the error leaves \<^verbatim>\<open>processQueue\<close>, which ends this activation.
  \<^verbatim>\<open>this.emit('taskError', ...)\<close> only reaches a listener that prints to the console.
\<close>

definition processQueue_resume ::
  "nat \<Rightarrow> outcome \<Rightarrow> BaseAgent \<times> MemStorage \<Rightarrow> BaseAgent \<times> MemStorage" where
  "processQueue_resume k out s =
     (case s of (w, st) \<Rightarrow>
        if k < length (executing w) then
          (let w0 = w\<lparr>executing := take k (executing w) @ drop (Suc k) (executing w)\<rparr>;
               w1 = w0\<lparr>currentTask := None\<rparr>
           in case currentTask w of
                Some c \<Rightarrow>
                  (let st1 = (case out of
                                Returned \<Rightarrow>
                                  log w0 ''info'' (''Completed task: '' @ task_type c) None st
                              | Threw e \<Rightarrow>
                                  log w0 ''error'' (''Task failed: '' @ task_type c) (Some e) st)
                   in processQueue (w1, updateProgress w1 0 st1))
              | None \<Rightarrow> (w1, updateProgress w1 0 st))
        else s)"

definition start :: "BaseAgent \<times> MemStorage \<Rightarrow> BaseAgent \<times> MemStorage" where
  "start s =
     (case s of (w, st) \<Rightarrow>
        if isRunning w then s
        else
          (let w1 = w\<lparr>isRunning := True\<rparr>;
               st1 = updateStatus w1 ''running'' None st;
               st2 = log w1 ''info'' ''Agent started'' None st1
           in processQueue (w1, st2)))"

definition stop :: "BaseAgent \<times> MemStorage \<Rightarrow> BaseAgent \<times> MemStorage" where
  "stop s =
     (case s of (w, st) \<Rightarrow>
        (let w1 = w\<lparr>isRunning := False\<rparr>;
             st1 = updateStatus w1 ''idle'' None st;
             st2 = log w1 ''info'' ''Agent stopped'' None st1
         in (w1, st2)))"

definition addTask :: "AgentTask \<Rightarrow> BaseAgent \<times> MemStorage \<Rightarrow> BaseAgent \<times> MemStorage" where
  "addTask task s =
     (case s of (w, st) \<Rightarrow>
        (let w1 = w\<lparr>taskQueue := sort_queue (taskQueue w @ [task])\<rparr>
         in if isRunning w1 \<and> currentTask w1 = None then processQueue (w1, st)
            else (w1, st)))"

section \<open>AgentManager: the registry\<close>

text \<open>
  The manager's \<^verbatim>\<open>agents: Map<number, any>\<close> maps an agent id to a worker object. A worker
  that \<^verbatim>\<open>stopAgent\<close> has removed from the map may still be finishing a task, so the objects
  live in a store of their own: \<open>objects\<close>, where an object's reference is its index and
  \<^verbatim>\<open>new\<close> appends. \<open>manager_agents\<close> is the map, from ids to references. The storage is
  the module's one \<^verbatim>\<open>MemStorage\<close>.
\<close>

record System =
  storage :: MemStorage
  objects :: "BaseAgent list"
  manager_agents :: "nat \<rightharpoonup> nat"

definition System_new :: "MemStorage \<Rightarrow> System" where
  "System_new st = \<lparr>storage = st, objects = [], manager_agents = Map.empty\<rparr>"

text \<open>
  The errors the manager throws: \<^verbatim>\<open>Agent ${agentId} not found\<close>,
  \<^verbatim>\<open>Unknown agent type: ${agentData.type}\<close> and
  \<^verbatim>\<open>No running agent of type ${agentType} found\<close>.
\<close>

datatype error = AgentNotFound nat | UnknownAgentType string | NoRunningAgent string

text \<open>A method call on the object with reference \<open>r\<close>.\<close>

definition on_object ::
  "nat \<Rightarrow> (BaseAgent \<times> MemStorage \<Rightarrow> BaseAgent \<times> MemStorage) \<Rightarrow> System \<Rightarrow> System" where
  "on_object r f sys =
     (if r < length (objects sys) then
        (case f (objects sys ! r, storage sys) of
           (w, st) \<Rightarrow> sys\<lparr>storage := st, objects := (objects sys)[r := w]\<rparr>)
      else sys)"

definition class_of_type :: "string \<Rightarrow> agent_class option" where
  "class_of_type ty =
     (if ty = ''code_generator'' then Some CodeGeneratorAgent
      else if ty = ''infrastructure'' then Some InfrastructureAgent
      else if ty = ''learning'' then Some LearningAgent
      else None)"

definition startAgent :: "nat \<Rightarrow> System \<Rightarrow> error + System" where
  "startAgent aid sys =
     (case getAgent aid (storage sys) of
        None \<Rightarrow> Inl (AgentNotFound aid)
      | Some agentData \<Rightarrow>
          if manager_agents sys aid \<noteq> None then Inr sys
          else
            (case class_of_type (agent_type agentData) of
               None \<Rightarrow> Inl (UnknownAgentType (agent_type agentData))
             | Some c \<Rightarrow>
                 (let r = length (objects sys);
                      sys1 = sys\<lparr>objects := objects sys @ [BaseAgent_new c aid],
                                 manager_agents := (manager_agents sys)(aid \<mapsto> r)\<rparr>
                  in Inr (on_object r start sys1))))"

definition stopAgent :: "nat \<Rightarrow> System \<Rightarrow> error + System" where
  "stopAgent aid sys =
     (case manager_agents sys aid of
        Some r \<Rightarrow>
          Inr ((on_object r stop sys)\<lparr>manager_agents := (manager_agents sys)(aid := None)\<rparr>)
      | None \<Rightarrow> Inr sys)"

definition assignTask :: "string \<Rightarrow> AgentTask \<Rightarrow> System \<Rightarrow> error + System" where
  "assignTask agentType task sys =
     (case find (\<lambda>a. agent_type a = agentType \<and> status a = ''running'')
             (getAgents (storage sys)) of
        None \<Rightarrow> Inl (NoRunningAgent agentType)
      | Some targetAgent \<Rightarrow>
          (case manager_agents sys (agent_id targetAgent) of
             Some r \<Rightarrow> Inr (on_object r (addTask task) sys)
           | None \<Rightarrow> Inr sys))"

text \<open>
  A sequence of calls from the route layer. A call that throws has changed nothing
  (both \<^verbatim>\<open>throw\<close> statements of \<^verbatim>\<open>startAgent\<close> come before its first assignment), so the
  next call finds the system as it was.
\<close>

datatype call = StartAgent nat | StopAgent nat

fun do_call :: "call \<Rightarrow> System \<Rightarrow> error + System" where
  "do_call (StartAgent aid) sys = startAgent aid sys"
| "do_call (StopAgent aid) sys = stopAgent aid sys"

definition after_call :: "call \<Rightarrow> System \<Rightarrow> System" where
  "after_call c sys = (case do_call c sys of Inl e \<Rightarrow> sys | Inr sys' \<Rightarrow> sys')"

definition run_calls :: "call list \<Rightarrow> System \<Rightarrow> System" where
  "run_calls cs sys = fold after_call cs sys"

text \<open>
  Everything that happens to a system: a call of \<^verbatim>\<open>startAgent\<close> or \<^verbatim>\<open>stopAgent\<close>, a call of
  \<^verbatim>\<open>assignTask\<close>, a report of the handler that runs in the worker object \<open>r\<close>, and the end
  of that handler, with any outcome.
\<close>

datatype event = Call call | Assign string AgentTask | Reports nat report | Ends nat outcome

fun step :: "event \<Rightarrow> System \<Rightarrow> System" where
  "step (Call c) sys = after_call c sys"
| "step (Assign agentType task) sys =
     (case assignTask agentType task sys of Inl e \<Rightarrow> sys | Inr sys' \<Rightarrow> sys')"
| "step (Reports r rep) sys =
     (if r < length (objects sys) \<and> executing (objects sys ! r) \<noteq> []
      then on_object r (handler_report rep) sys else sys)"
| "step (Ends r out) sys = on_object r (processQueue_resume 0 out) sys"

section \<open>Running a worker\<close>

text \<open>
  A run of the worker with nothing else calling in: as long as an activation is
  suspended in \<^verbatim>\<open>executeTask\<close>, the first one's handler makes its reports and ends, and
  \<^verbatim>\<open>processQueue\<close> goes on. \<open>h\<close> gives the behaviour of the private handler method for
  each task. The result lists the tasks in the order in which they were executed.
\<close>

lemma fst_handler_report: "fst (handler_report r s) = fst s"
  by (cases r; cases s) simp_all

lemma fst_fold_handler_report: "fst (fold handler_report rs s) = fst s"
  by (induction rs arbitrary: s) (simp_all add: fst_handler_report)

definition pending :: "BaseAgent \<times> MemStorage \<Rightarrow> nat" where
  "pending s = length (taskQueue (fst s)) + length (executing (fst s))"

lemma pending_processQueue: "pending (processQueue s) = pending s"
  by (cases s)
    (simp add: processQueue_def pending_def Let_def split: list.split)

lemma pending_resume:
  "executing (fst s) \<noteq> [] \<Longrightarrow> pending (processQueue_resume 0 out s) < pending s"
proof (cases s)
  case (Pair w st)
  assume "executing (fst s) \<noteq> []"
  with Pair obtain t ts where e: "executing w = t # ts"
    by (cases "executing w") auto
  show ?thesis
  proof (cases "currentTask w")
    case None
    with Pair e show ?thesis
      by (simp add: processQueue_resume_def pending_def Let_def)
  next
    case (Some c)
    with Pair e show ?thesis
      by (simp add: processQueue_resume_def Let_def pending_processQueue)
        (simp add: pending_def)
  qed
qed

lemma pending_run:
  assumes "executing (fst s) = t # ts"
  shows "pending (processQueue_resume 0 out (fold handler_report rs s)) < pending s"
proof -
  have "executing (fst (fold handler_report rs s)) \<noteq> []"
    using assms by (simp add: fst_fold_handler_report)
  from pending_resume [OF this, of out] show ?thesis
    by (simp add: pending_def fst_fold_handler_report)
qed

function drain ::
  "(AgentTask \<Rightarrow> behaviour) \<Rightarrow> BaseAgent \<times> MemStorage \<Rightarrow>
     AgentTask list \<times> (BaseAgent \<times> MemStorage)" where
  "drain h s =
     (case executing (fst s) of
        [] \<Rightarrow> ([], s)
      | t # _ \<Rightarrow>
          (let b = executeTask (cls (fst s)) t (h t);
               r = drain h (processQueue_resume 0 (snd b) (fold handler_report (fst b) s))
           in (t # fst r, snd r)))"
  by pat_completeness auto
termination
  by (relation "measure (\<lambda>(h, s). pending s)") (auto intro: pending_run)

declare drain.simps [simp del]

section \<open>Observations\<close>

text \<open>The persisted record of a worker's agent.\<close>

definition persisted :: "BaseAgent \<times> MemStorage \<Rightarrow> Agent option" where
  "persisted s = getAgent (agentId (fst s)) (snd s)"

text \<open>The message of the error a behaviour ends with, if it ends with one.\<close>

definition failure :: "behaviour \<Rightarrow> string option" where
  "failure b = (case snd b of Returned \<Rightarrow> None | Threw e \<Rightarrow> Some e)"

text \<open>The error-level records of the system log, oldest first: message and metadata.\<close>

definition error_logs :: "MemStorage \<Rightarrow> (string \<times> string option) list" where
  "error_logs st =
     map (\<lambda>l. (message l, metadata l)) (filter (\<lambda>l. level l = ''error'') (systemLogs st))"

text \<open>
  The kinds that have no \<^verbatim>\<open>case\<close> label in a class's \<^verbatim>\<open>executeTask\<close>. Nothing is said of the
  class whose source is absent.
\<close>

definition unknown_kind :: "agent_class \<Rightarrow> string \<Rightarrow> bool" where
  "unknown_kind c k =
     (case c of
        InfrastructureAgent \<Rightarrow>
          k \<notin> set [''generate_terraform'', ''deploy_infrastructure'', ''monitor_resources'']
      | LearningAgent \<Rightarrow>
          k \<notin> set [''analyze_commits'', ''learn_patterns'', ''suggest_improvements'']
      | CodeGeneratorAgent \<Rightarrow> False)"

text \<open>
  \<open>ds\<close> is \<open>ts\<close> in stable priority order: the same tasks, by descending priority, and
  the tasks of one priority in the order they have in \<open>ts\<close>.
\<close>

definition stable_priority_order :: "AgentTask list \<Rightarrow> AgentTask list \<Rightarrow> bool" where
  "stable_priority_order ds ts \<longleftrightarrow>
     mset ds = mset ts
     \<and> sorted_wrt (\<lambda>a b. priority b \<le> priority a) ds
     \<and> (\<forall>p. filter (\<lambda>t. priority t = p) ds = filter (\<lambda>t. priority t = p) ts)"

text \<open>The storage has a record for the agent, of a type that \<^verbatim>\<open>startAgent\<close> knows.\<close>

definition known_type :: "MemStorage \<Rightarrow> nat \<Rightarrow> bool" where
  "known_type st aid =
     (case getAgent aid st of None \<Rightarrow> False | Some a \<Rightarrow> class_of_type (agent_type a) \<noteq> None)"

text \<open>
  The invariant of the registry: what the map holds is a started worker of that agent,
  whose record is in the storage, and every started worker object is the one the map
  holds for its agent.
\<close>

definition registry_ok :: "System \<Rightarrow> bool" where
  "registry_ok sys \<longleftrightarrow>
     (\<forall>aid r. manager_agents sys aid = Some r \<longrightarrow>
        r < length (objects sys) \<and> agentId (objects sys ! r) = aid
        \<and> isRunning (objects sys ! r) \<and> known_type (storage sys) aid)
     \<and> (\<forall>r < length (objects sys). isRunning (objects sys ! r) \<longrightarrow>
          manager_agents sys (agentId (objects sys ! r)) = Some r)"

text \<open>
  A method of the worker that changes neither the worker's agent id, nor whether it is
  running, nor the type of any agent in the storage.
\<close>

definition keeps :: "(BaseAgent \<times> MemStorage \<Rightarrow> BaseAgent \<times> MemStorage) \<Rightarrow> bool" where
  "keeps f \<longleftrightarrow>
     (\<forall>w st. agentId (fst (f (w, st))) = agentId w
        \<and> isRunning (fst (f (w, st))) = isRunning w
        \<and> (\<forall>i. known_type (snd (f (w, st))) i = known_type st i))"

text \<open>The queue of the worker is in priority order, the highest priority first.\<close>

definition queue_in_order :: "BaseAgent \<Rightarrow> bool" where
  "queue_in_order w \<longleftrightarrow> sorted_wrt (\<lambda>a b. priority b \<le> priority a) (taskQueue w)"

text \<open>
  At most one activation of \<^verbatim>\<open>processQueue\<close> is suspended in a handler, and \<^verbatim>\<open>currentTask\<close>
  is its task. A worker object can leave this state only by \<^verbatim>\<open>stop()\<close> and then \<^verbatim>\<open>start()\<close>
  on the same object while a task is executing, which starts a second loop.
\<close>

definition one_activation :: "BaseAgent \<Rightarrow> bool" where
  "one_activation w \<longleftrightarrow> executing w = (case currentTask w of None \<Rightarrow> [] | Some t \<Rightarrow> [t])"

section \<open>Example data\<close>

definition infra_insert :: InsertAgent where
  "infra_insert =
     \<lparr>ins_name = ''Infrastructure Agent'', ins_type = ''infrastructure'', ins_config = []\<rparr>"

definition infra_storage :: MemStorage where
  "infra_storage = snd (createAgent infra_insert MemStorage_new)"

definition task_of :: "string \<Rightarrow> string \<Rightarrow> int \<Rightarrow> AgentTask" where
  "task_of i k p = \<lparr>task_id = i, task_type = k, payload = [], priority = p\<rparr>"

definition returns_at_once :: "AgentTask \<Rightarrow> behaviour" where
  "returns_at_once t = ([], Returned)"

definition fails_at_once :: "AgentTask \<Rightarrow> behaviour" where
  "fails_at_once t = ([Progress 20], Threw ''collaborator failed'')"

definition infra_t1 :: AgentTask where "infra_t1 = task_of ''t1'' ''generate_terraform'' 8"
definition infra_t2 :: AgentTask where "infra_t2 = task_of ''t2'' ''deploy_infrastructure'' 5"

definition infra_worker_started :: "BaseAgent \<times> MemStorage" where
  "infra_worker_started = start (BaseAgent_new InfrastructureAgent 1, infra_storage)"

definition infra_worker_busy :: "BaseAgent \<times> MemStorage" where
  "infra_worker_busy = addTask infra_t1 infra_worker_started"

definition infra_worker_queued :: "BaseAgent \<times> MemStorage" where
  "infra_worker_queued = addTask infra_t2 infra_worker_busy"

definition four_tasks :: "AgentTask list" where
  "four_tasks =
     [task_of ''0'' ''generate_terraform'' 5, task_of ''1'' ''generate_terraform'' 10,
      task_of ''2'' ''generate_terraform'' 1, task_of ''3'' ''generate_terraform'' 10]"

definition infra_t9 :: AgentTask where "infra_t9 = task_of ''t9'' ''restart_cluster'' 3"

definition infra_worker_confused :: "BaseAgent \<times> MemStorage" where
  "infra_worker_confused = addTask infra_t9 infra_worker_started"


definition started_system :: System where
  "started_system = run_calls [StartAgent 1] (System_new infra_storage)"

definition busy_system :: System where
  "busy_system =
     (case assignTask ''infrastructure'' infra_t1 started_system of
        Inr sys \<Rightarrow> sys | Inl e \<Rightarrow> started_system)"

definition infra_worker_waiting :: "BaseAgent \<times> MemStorage" where
  "infra_worker_waiting = addTask infra_t2 (BaseAgent_new InfrastructureAgent 1, infra_storage)"

definition infra_t3 :: AgentTask where "infra_t3 = task_of ''t3'' ''monitor_resources'' 2"

definition two_infra_system :: System where
  "two_infra_system =
     fold step [Call (StartAgent 1), Call (StartAgent 2),
                Assign ''infrastructure'' infra_t1, Assign ''infrastructure'' infra_t2]
       (System_new (snd (createAgent infra_insert infra_storage)))"

definition restarted_busy_system :: System where
  "restarted_busy_system =
     fold step [Call (StartAgent 1), Assign ''infrastructure'' infra_t1,
                Call (StopAgent 1), Call (StartAgent 1)]
       (System_new infra_storage)"

text \<open>
  A storage that lists the infrastructure agent as \<^verbatim>\<open>running\<close> and a new manager, which
  holds no worker: what a process finds after a restart over a storage that outlives it.
\<close>

definition restarted_system :: System where
  "restarted_system =
     System_new (updateAgent 1 (\<lambda>a. a\<lparr>status := ''running''\<rparr>) infra_storage)"

section \<open>Lemmas: the storage\<close>

lemma getAgent_updateAgent:
  "getAgent i (updateAgent j f st) =
     (if i = j then map_option f (getAgent i st) else getAgent i st)"
  by (simp add: getAgent_def updateAgent_def update_conv' split: option.split)

lemma getAgent_createSystemLog [simp]:
  "getAgent i (createSystemLog lv msg src aid md st) = getAgent i st"
  by (simp add: getAgent_def createSystemLog_def)

lemma getAgent_storage_createActivity [simp]:
  "getAgent i (storage_createActivity ty ttl descr aid pid st) = getAgent i st"
  by (simp add: getAgent_def storage_createActivity_def)

lemma getAgent_currentId [simp]: "getAgent i (st\<lparr>currentId := n\<rparr>) = getAgent i st"
  by (simp add: getAgent_def)

lemma systemLogs_updateAgent [simp]: "systemLogs (updateAgent i f st) = systemLogs st"
  by (simp add: updateAgent_def split: option.split)

lemma currentId_updateAgent [simp]: "currentId (updateAgent i f st) = currentId st"
  by (simp add: updateAgent_def split: option.split)

lemma systemLogs_storage_createActivity [simp]:
  "systemLogs (storage_createActivity ty ttl descr aid pid st) = systemLogs st"
  by (simp add: storage_createActivity_def)

lemma systemLogs_createSystemLog:
  "systemLogs (createSystemLog lv msg src aid md st) =
     systemLogs st @ [\<lparr>log_id = currentId st, level = lv, message = msg, log_source = src,
                       log_agentId = aid, metadata = md\<rparr>]"
  by (simp add: createSystemLog_def)

section \<open>Lemmas: one worker\<close>

lemma fold_handler_report_pair: "fold handler_report rs (w, st) = (w, snd (fold handler_report rs (w, st)))"
  using fst_fold_handler_report [of rs "(w, st)"] by (metis fst_conv prod.collapse)

lemma persisted_fold_reports_status:
  "map_option status (getAgent i (snd (fold handler_report rs (w, st)))) = map_option status (getAgent i st)"
proof (induction rs arbitrary: st)
  case Nil show ?case by simp
next
  case (Cons r rs)
  show ?case
    by (cases r) (simp_all add: Cons.IH updateProgress_def getAgent_updateAgent log_def createActivity_def option.map_comp comp_def)
qed


lemma resume_single:
  assumes "executing w = [t]" and "currentTask w = Some t"
  shows "processQueue_resume 0 out (w, st) =
     processQueue
       (w\<lparr>executing := [], currentTask := None\<rparr>,
        updateProgress w 0
          (log w (case out of Returned \<Rightarrow> ''info'' | Threw e \<Rightarrow> ''error'')
             ((case out of Returned \<Rightarrow> ''Completed task: '' | Threw e \<Rightarrow> ''Task failed: '')
                @ task_type t)
             (case out of Returned \<Rightarrow> None | Threw e \<Rightarrow> Some e) st))"
  using assms
  by (cases out) (simp_all add: processQueue_resume_def Let_def log_def updateProgress_def)

lemma drain_Nil: "executing (fst s) = [] \<Longrightarrow> drain h s = ([], s)"
  by (subst drain.simps) simp

lemma drain_Cons:
  "executing (fst s) = t # ts \<Longrightarrow>
   drain h s =
     (t # fst (drain h (processQueue_resume 0 (snd (executeTask (cls (fst s)) t (h t)))
                 (fold handler_report (fst (executeTask (cls (fst s)) t (h t))) s))),
      snd (drain h (processQueue_resume 0 (snd (executeTask (cls (fst s)) t (h t)))
                 (fold handler_report (fst (executeTask (cls (fst s)) t (h t))) s))))"
  by (subst drain.simps) (simp add: Let_def)

lemma error_logs_updateAgent [simp]: "error_logs (updateAgent i f st) = error_logs st"
  by (simp add: error_logs_def)

lemma error_logs_log:
  "error_logs (log w lv msg md st) = error_logs st @ (if lv = ''error'' then [(msg, md)] else [])"
  by (simp add: error_logs_def log_def systemLogs_createSystemLog)

lemma error_logs_fold_reports:
  "error_logs (snd (fold handler_report rs (w, st))) = error_logs st"
proof (induction rs arbitrary: st)
  case Nil show ?case by simp
next
  case (Cons r rs)
  show ?case
    by (cases r)
      (simp_all add: Cons.IH updateProgress_def error_logs_log createActivity_def,
        simp_all add: error_logs_def storage_createActivity_def)
qed

lemma drain_working:
  "isRunning w \<Longrightarrow> executing w = [t] \<Longrightarrow> currentTask w = Some t \<Longrightarrow> taskQueue w = q \<Longrightarrow>
   fst (drain h (w, st)) = t # q
   \<and> taskQueue (fst (snd (drain h (w, st)))) = []
   \<and> executing (fst (snd (drain h (w, st)))) = []
   \<and> isRunning (fst (snd (drain h (w, st))))
   \<and> error_logs (snd (snd (drain h (w, st)))) =
       error_logs st @
       map (\<lambda>t. (''Task failed: '' @ task_type t, failure (executeTask (cls w) t (h t))))
         (filter (\<lambda>t. failure (executeTask (cls w) t (h t)) \<noteq> None) (t # q))"
proof (induction q arbitrary: w t st)
  case Nil
  define b where "b = executeTask (cls w) t (h t)"
  obtain st1 where f: "fold handler_report (fst b) (w, st) = (w, st1)"
    using fold_handler_report_pair by blast
  have e1: "error_logs st1 = error_logs st"
    using error_logs_fold_reports [of "fst b" w st] f by simp
  have d: "drain h (w, st) =
      (t # fst (drain h (processQueue_resume 0 (snd b) (w, st1))),
       snd (drain h (processQueue_resume 0 (snd b) (w, st1))))"
    using drain_Cons [of "(w, st)" t "[]" h] Nil.prems(2) f by (simp add: b_def)
  obtain w2 st2 where r: "processQueue_resume 0 (snd b) (w, st1) = (w2, st2)"
    by (cases "processQueue_resume 0 (snd b) (w, st1)")
  have w2: "executing w2 = []" "taskQueue w2 = []" "isRunning w2"
    and e2: "error_logs st2 = error_logs st1 @ (if failure b \<noteq> None then [(''Task failed: '' @ task_type t, failure b)] else [])"
    using r Nil.prems unfolding resume_single [OF Nil.prems(2,3)]
    by (auto simp add: processQueue_def updateStatus_def updateProgress_def error_logs_log failure_def
        split: outcome.splits)
  show ?case
    unfolding d r using w2 e2 e1 by (simp add: drain_Nil b_def)
next
  case (Cons t' q')
  define b where "b = executeTask (cls w) t (h t)"
  obtain st1 where f: "fold handler_report (fst b) (w, st) = (w, st1)"
    using fold_handler_report_pair by blast
  have e1: "error_logs st1 = error_logs st"
    using error_logs_fold_reports [of "fst b" w st] f by simp
  have d: "drain h (w, st) =
      (t # fst (drain h (processQueue_resume 0 (snd b) (w, st1))),
       snd (drain h (processQueue_resume 0 (snd b) (w, st1))))"
    using drain_Cons [of "(w, st)" t "[]" h] Cons.prems(2) f by (simp add: b_def)
  obtain w2 st2 where r: "processQueue_resume 0 (snd b) (w, st1) = (w2, st2)"
    by (cases "processQueue_resume 0 (snd b) (w, st1)")
  have w2: "executing w2 = [t']" "taskQueue w2 = q'" "isRunning w2" "currentTask w2 = Some t'"
       "cls w2 = cls w"
    and e2: "error_logs st2 = error_logs st1 @ (if failure b \<noteq> None then [(''Task failed: '' @ task_type t, failure b)] else [])"
    using r Cons.prems unfolding resume_single [OF Cons.prems(2,3)]
    by (auto simp add: processQueue_def updateStatus_def updateProgress_def error_logs_log failure_def
        Let_def split: outcome.splits)
  from Cons.IH [OF w2(3) w2(1) w2(4) w2(2), of st2]
  show ?case
    unfolding d r using e2 e1 w2(5) by (simp add: b_def)
qed

lemma sort_key_append_sorted:
  "sort_key f (sort_key f xs @ ys) = sort_key f (xs @ ys)"
proof (rule properties_for_sort_key)
  show "mset (sort_key f (xs @ ys)) = mset (sort_key f xs @ ys)" by simp
next
  fix k
  have "filter (\<lambda>x. f x = f k) (sort_key f (xs @ ys)) = filter (\<lambda>x. f x = f k) (sort_key f xs @ ys)"
    by (simp add: sort_key_stable)
  then show "filter (\<lambda>x. f k = f x) (sort_key f (xs @ ys)) = filter (\<lambda>x. f k = f x) (sort_key f xs @ ys)"
    by (simp add: eq_commute)
next
  show "sorted (map f (sort_key f (xs @ ys)))" by simp
qed

lemma fold_addTask_buffers:
  "\<not> isRunning w \<or> currentTask w \<noteq> None \<Longrightarrow> taskQueue w = sort_queue q0 \<Longrightarrow>
   fold addTask ts (w, st) = (w\<lparr>taskQueue := sort_queue (q0 @ ts)\<rparr>, st)"
proof (induction ts arbitrary: w q0)
  case Nil
  then show ?case by (cases w) simp
next
  case (Cons t ts)
  have "addTask t (w, st) = (w\<lparr>taskQueue := sort_queue (q0 @ [t])\<rparr>, st)"
    using Cons.prems by (auto simp add: addTask_def Let_def sort_queue_def sort_key_append_sorted)
  then show ?case
    using Cons.IH [of "w\<lparr>taskQueue := sort_queue (q0 @ [t])\<rparr>" "q0 @ [t]"] Cons.prems
    by simp
qed

lemma drain_after_start:
  assumes "\<not> isRunning w" and "executing w = []"
  shows "fst (drain h (start (w, st))) = taskQueue w"
proof (cases "taskQueue w")
  case Nil
  have "executing (fst (start (w, st))) = []"
    using assms Nil by (simp add: start_def processQueue_def Let_def)
  then show ?thesis using Nil by (simp add: drain_Nil)
next
  case (Cons t q)
  obtain w1 st1 where s: "start (w, st) = (w1, st1)" by (cases "start (w, st)")
  have w1: "isRunning w1" "executing w1 = [t]" "currentTask w1 = Some t" "taskQueue w1 = q"
    using s assms Cons by (auto simp add: start_def processQueue_def Let_def)
  from drain_working [OF w1, of h st1] show ?thesis unfolding s Cons by simp
qed


lemma stable_priority_order_sort_queue: "stable_priority_order (sort_queue ts) ts"
proof -
  have s: "sorted_wrt (\<lambda>a b. priority b \<le> priority a) (sort_queue ts)"
    using sorted_sort_key [of "\<lambda>t. - priority t" ts]
    by (simp add: sort_queue_def sorted_map)
  have f: "filter (\<lambda>t. priority t = p) (sort_queue ts) = filter (\<lambda>t. priority t = p) ts" for p
    using sort_key_stable [of "\<lambda>t. - priority t" "- p" ts] by (simp add: sort_queue_def)
  have m: "mset (sort_queue ts) = mset ts" by (simp add: sort_queue_def)
  from s f m show ?thesis by (simp add: stable_priority_order_def)
qed

lemma stable_priority_order_unique:
  assumes "stable_priority_order ds ts"
  shows "ds = sort_queue ts"
proof -
  have "sort_key (\<lambda>t. - priority t) ts = ds"
  proof (rule properties_for_sort_key)
    show "mset ds = mset ts" using assms by (simp add: stable_priority_order_def)
    show "sorted (map (\<lambda>t. - priority t) ds)"
      using assms by (simp add: stable_priority_order_def sorted_map)
    fix k assume "k \<in> set ds"
    from assms have "filter (\<lambda>t. priority t = priority k) ds = filter (\<lambda>t. priority t = priority k) ts"
      by (simp add: stable_priority_order_def)
    then show "filter (\<lambda>x. - priority k = - priority x) ds = filter (\<lambda>x. - priority k = - priority x) ts"
      by (simp add: eq_commute)
  qed
  then show ?thesis by (simp add: sort_queue_def)
qed

lemma sort_queue_sorted:
  "sorted_wrt (\<lambda>a b. priority b \<le> priority a) q \<Longrightarrow> sort_queue q = q"
  unfolding sort_queue_def by (rule sort_key_id_if_sorted) (simp add: sorted_map)


lemma executeTask_unknown:
  "unknown_kind c (task_type t) \<Longrightarrow>
   executeTask c t b = ([], Threw (''Unknown task type: '' @ task_type t))"
  by (cases c) (simp_all add: unknown_kind_def executeTask_def)

section \<open>Lemmas: the registry\<close>

lemma assignTask_found:
  "find (\<lambda>a. agent_type a = agentType \<and> status a = ''running'') (getAgents (storage sys)) \<noteq> None
   \<Longrightarrow> \<not> isl (assignTask agentType task sys)"
  by (auto simp add: assignTask_def split: option.splits)

lemma stop_queue:
  "taskQueue (fst (stop (w, st))) = taskQueue w" "executing (fst (stop (w, st))) = executing w"
  by (simp_all add: stop_def Let_def)

lemma start_fields:
  "agentId (fst (start (w, st))) = agentId w" "isRunning (fst (start (w, st)))"
  by (simp_all add: start_def processQueue_def Let_def split: list.split)

lemma stop_fields:
  "agentId (fst (stop (w, st))) = agentId w" "\<not> isRunning (fst (stop (w, st)))"
  by (simp_all add: stop_def Let_def)

lemma known_type_updateStatus [simp]:
  "known_type (updateStatus w s ct st) i = known_type st i"
  by (simp add: known_type_def updateStatus_def getAgent_updateAgent split: option.split)

lemma known_type_updateProgress [simp]:
  "known_type (updateProgress w p st) i = known_type st i"
  by (simp add: known_type_def updateProgress_def getAgent_updateAgent split: option.split)

lemma known_type_log [simp]: "known_type (log w lv msg md st) i = known_type st i"
  by (simp add: known_type_def log_def)

lemma known_type_createActivity [simp]:
  "known_type (createActivity w ty ttl descr pid st) i = known_type st i"
  by (simp add: known_type_def createActivity_def)

lemma known_type_currentId [simp]: "known_type (st\<lparr>currentId := n\<rparr>) i = known_type st i"
  by (simp add: known_type_def)

lemma processQueue_keeps:
  "agentId (fst (processQueue (w, st))) = agentId w"
  "isRunning (fst (processQueue (w, st))) = isRunning w"
  "known_type (snd (processQueue (w, st))) i = known_type st i"
  by (simp_all add: processQueue_def Let_def split: list.split)

lemma keeps_addTask: "keeps (addTask t)"
  by (simp add: keeps_def addTask_def Let_def processQueue_keeps)

lemma keeps_handler_report: "keeps (handler_report rep)"
  by (cases rep) (simp_all add: keeps_def)

lemma keeps_processQueue_resume: "keeps (processQueue_resume k out)"
  by (simp add: keeps_def processQueue_resume_def Let_def processQueue_keeps
      split: option.split outcome.split)

lemma start_keeps_types [simp]: "known_type (snd (start (w, st))) i = known_type st i"
  by (simp add: start_def Let_def processQueue_keeps)

lemma stop_keeps_types [simp]: "known_type (snd (stop (w, st))) i = known_type st i"
  by (simp add: stop_def Let_def)

lemma registry_ok_on_object:
  assumes "registry_ok sys" and "keeps f"
  shows "registry_ok (on_object r f sys)"
proof (cases "r < length (objects sys)")
  case False
  with assms(1) show ?thesis by (simp add: on_object_def)
next
  case True
  define w where "w = fst (f (objects sys ! r, storage sys))"
  define st where "st = snd (f (objects sys ! r, storage sys))"
  have o: "on_object r f sys = sys\<lparr>storage := st, objects := (objects sys)[r := w]\<rparr>"
    using True by (simp add: on_object_def case_prod_beta w_def st_def)
  have w: "agentId w = agentId (objects sys ! r)" "isRunning w = isRunning (objects sys ! r)"
    and st: "known_type st i = known_type (storage sys) i" for i
    using assms(2) by (simp_all add: keeps_def w_def st_def)
  have n: "agentId ((objects sys)[r := w] ! k) = agentId (objects sys ! k)"
      "isRunning ((objects sys)[r := w] ! k) = isRunning (objects sys ! k)"
    if "k < length (objects sys)" for k
    using that w True by (auto simp add: nth_list_update)
  show ?thesis
    unfolding o registry_ok_def using assms(1) n st
    by (simp add: registry_ok_def)
qed

lemma registry_ok_new: "registry_ok (System_new st)"
  by (simp add: registry_ok_def System_new_def)

lemma startAgent_new:
  assumes "manager_agents sys aid = None" and "getAgent aid (storage sys) = Some agentData"
    and "class_of_type (agent_type agentData) = Some c"
  shows "startAgent aid sys =
     Inr \<lparr>storage = snd (start (BaseAgent_new c aid, storage sys)),
          objects = objects sys @ [fst (start (BaseAgent_new c aid, storage sys))],
          manager_agents = (manager_agents sys)(aid \<mapsto> length (objects sys))\<rparr>"
  using assms
  by (cases sys) (simp add: startAgent_def on_object_def Let_def case_prod_beta)

lemma stopAgent_registered:
  assumes "manager_agents sys aid = Some r" and "r < length (objects sys)"
  shows "stopAgent aid sys =
     Inr \<lparr>storage = snd (stop (objects sys ! r, storage sys)),
          objects = (objects sys)[r := fst (stop (objects sys ! r, storage sys))],
          manager_agents = (manager_agents sys)(aid := None)\<rparr>"
  using assms
  by (cases sys) (simp add: stopAgent_def on_object_def case_prod_beta)

lemma registry_ok_startAgent:
  assumes "registry_ok sys" and "startAgent aid sys = Inr sys'"
  shows "registry_ok sys'"
proof (cases "manager_agents sys aid")
  case (Some r)
  with assms show ?thesis by (auto simp add: startAgent_def split: option.splits)
next
  case None
  from assms(2) None obtain agentData c where
    g: "getAgent aid (storage sys) = Some agentData"
    and c: "class_of_type (agent_type agentData) = Some c"
    by (auto simp add: startAgent_def split: option.splits)
  define w where "w = fst (start (BaseAgent_new c aid, storage sys))"
  define st where "st = snd (start (BaseAgent_new c aid, storage sys))"
  have sys': "sys' = \<lparr>storage = st, objects = objects sys @ [w],
                      manager_agents = (manager_agents sys)(aid \<mapsto> length (objects sys))\<rparr>"
    using assms(2) startAgent_new [OF None g c] by (simp add: w_def st_def)
  have w: "agentId w = aid" "isRunning w"
    by (simp_all add: w_def start_fields BaseAgent_new_def)
  have st: "known_type st i = known_type (storage sys) i" for i
    by (simp add: st_def)
  have kt: "known_type (storage sys) aid"
    using g c by (simp add: known_type_def)
  let ?n = "length (objects sys)"
  have 1: "r < length (objects sys @ [w]) \<and> agentId ((objects sys @ [w]) ! r) = i
           \<and> isRunning ((objects sys @ [w]) ! r) \<and> known_type st i"
    if h: "((manager_agents sys)(aid \<mapsto> ?n)) i = Some r" for i r
  proof (cases "i = aid")
    case True
    with h have "r = ?n" by simp
    with True w kt st show ?thesis by simp
  next
    case False
    with h have m: "manager_agents sys i = Some r" by simp
    with assms(1) have "r < ?n" "agentId (objects sys ! r) = i" "isRunning (objects sys ! r)"
      "known_type (storage sys) i"
      unfolding registry_ok_def by blast+
    then show ?thesis using st by (simp add: nth_append)
  qed
  have 2: "((manager_agents sys)(aid \<mapsto> ?n)) (agentId ((objects sys @ [w]) ! r)) = Some r"
    if h: "r < length (objects sys @ [w])" "isRunning ((objects sys @ [w]) ! r)" for r
  proof (cases "r = ?n")
    case True
    with w show ?thesis by simp
  next
    case False
    with h have r: "r < ?n" "isRunning (objects sys ! r)" by (simp_all add: nth_append)
    with assms(1) have m: "manager_agents sys (agentId (objects sys ! r)) = Some r"
      unfolding registry_ok_def by blast
    with None have "agentId (objects sys ! r) \<noteq> aid" by auto
    with m r show ?thesis by (simp add: nth_append)
  qed
  show ?thesis
    unfolding registry_ok_def sys' using 1 2 by simp
qed

lemma registry_ok_stopAgent:
  assumes "registry_ok sys" and "stopAgent aid sys = Inr sys'"
  shows "registry_ok sys'"
proof (cases "manager_agents sys aid")
  case None
  with assms show ?thesis by (simp add: stopAgent_def)
next
  case (Some r)
  define w where "w = fst (stop (objects sys ! r, storage sys))"
  define st where "st = snd (stop (objects sys ! r, storage sys))"
  have r: "r < length (objects sys)" "agentId (objects sys ! r) = aid"
    using assms(1) Some by (simp_all add: registry_ok_def)
  have sys': "sys' = \<lparr>storage = st, objects = (objects sys)[r := w],
                      manager_agents = (manager_agents sys)(aid := None)\<rparr>"
    using assms(2) stopAgent_registered [OF Some r(1)] by (simp add: w_def st_def)
  have w: "agentId w = aid" "\<not> isRunning w"
    using r by (simp_all add: w_def stop_fields)
  have st: "known_type st i = known_type (storage sys) i" for i
    by (simp add: st_def)
  have 1: "k < length ((objects sys)[r := w]) \<and> agentId ((objects sys)[r := w] ! k) = i
           \<and> isRunning ((objects sys)[r := w] ! k) \<and> known_type st i"
    if h: "((manager_agents sys)(aid := None)) i = Some k" for i k
  proof -
    from h have i: "i \<noteq> aid" and m: "manager_agents sys i = Some k"
      by (auto split: if_splits)
    from m assms(1) have k: "k < length (objects sys)" "agentId (objects sys ! k) = i"
      "isRunning (objects sys ! k)" "known_type (storage sys) i"
      unfolding registry_ok_def by blast+
    from k(2) i r(2) have "k \<noteq> r" by auto
    with k st show ?thesis by simp
  qed
  have 2: "((manager_agents sys)(aid := None)) (agentId ((objects sys)[r := w] ! k)) = Some k"
    if h: "k < length ((objects sys)[r := w])" "isRunning ((objects sys)[r := w] ! k)" for k
  proof -
    from h w r(1) have kr: "k \<noteq> r" by (auto simp add: nth_list_update)
    with h have k: "k < length (objects sys)" "isRunning (objects sys ! k)" by simp_all
    with assms(1) have m: "manager_agents sys (agentId (objects sys ! k)) = Some k"
      unfolding registry_ok_def by blast
    with Some kr have "agentId (objects sys ! k) \<noteq> aid" by auto
    with m kr show ?thesis by simp
  qed
  show ?thesis
    unfolding registry_ok_def sys' using 1 2 by simp
qed

lemma registry_ok_after_call: "registry_ok sys \<Longrightarrow> registry_ok (after_call c sys)"
  by (cases c)
    (auto simp add: after_call_def split: sum.splits
      intro: registry_ok_startAgent registry_ok_stopAgent)

lemma registry_ok_step:
  assumes "registry_ok sys"
  shows "registry_ok (step e sys)"
proof (cases e)
  case (Call c)
  with assms show ?thesis by (simp add: registry_ok_after_call)
next
  case (Assign agentType task)
  have "registry_ok (on_object r (addTask task) sys)" for r
    using assms keeps_addTask by (rule registry_ok_on_object)
  with assms Assign show ?thesis
    by (auto simp add: assignTask_def split: option.splits)
next
  case (Reports r rep)
  have "registry_ok (on_object r (handler_report rep) sys)"
    using assms keeps_handler_report by (rule registry_ok_on_object)
  with assms Reports show ?thesis by simp
next
  case (Ends r out)
  have "registry_ok (on_object r (processQueue_resume 0 out) sys)"
    using assms keeps_processQueue_resume by (rule registry_ok_on_object)
  with Ends show ?thesis by simp
qed

lemma registry_ok_steps: "registry_ok sys \<Longrightarrow> registry_ok (fold step evs sys)"
  by (induction evs arbitrary: sys) (simp_all add: registry_ok_step)


section \<open>Workers under the manager\<close>

lemma one_activation_addTask:
  "one_activation w \<Longrightarrow> one_activation (fst (addTask t (w, st)))"
  by (auto simp add: addTask_def Let_def one_activation_def processQueue_def split: list.split option.splits)

lemma one_activation_stop: "one_activation w \<Longrightarrow> one_activation (fst (stop (w, st)))"
  by (simp add: stop_def Let_def one_activation_def)

lemma one_activation_report: "one_activation w \<Longrightarrow> one_activation (fst (handler_report r (w, st)))"
  by (simp add: fst_handler_report)

lemma one_activation_resume:
  "one_activation w \<Longrightarrow> one_activation (fst (processQueue_resume 0 out (w, st)))"
  by (cases "currentTask w")
    (auto simp add: processQueue_resume_def Let_def one_activation_def processQueue_def
      split: list.split outcome.split)

lemma one_activation_start_new: "one_activation (fst (start (BaseAgent_new c aid, st)))"
  by (simp add: start_def processQueue_def BaseAgent_new_def one_activation_def Let_def)

lemma on_object_preserves:
  assumes "\<forall>w \<in> set (objects sys). P w" and "\<And>w st. P w \<Longrightarrow> P (fst (f (w, st)))"
  shows "\<forall>w \<in> set (objects (on_object r f sys)). P w"
proof (cases "r < length (objects sys)")
  case False
  with assms(1) show ?thesis by (simp add: on_object_def)
next
  case True
  let ?w = "fst (f (objects sys ! r, storage sys))"
  have o: "objects (on_object r f sys) = (objects sys)[r := ?w]"
    using True by (simp add: on_object_def case_prod_beta)
  from assms True have "P ?w" by simp
  moreover have "set ((objects sys)[r := ?w]) \<subseteq> insert ?w (set (objects sys))"
    by (rule set_update_subset_insert)
  ultimately show ?thesis unfolding o using assms(1) by blast
qed

lemma one_activation_step:
  assumes "\<forall>w \<in> set (objects sys). one_activation w"
  shows "\<forall>w \<in> set (objects (step e sys)). one_activation w"
proof (cases e)
  case (Call c)
  show ?thesis
  proof (cases c)
    case (StartAgent aid)
    show ?thesis
    proof (cases "startAgent aid sys")
      case (Inl err)
      with Call StartAgent assms show ?thesis by (simp add: after_call_def)
    next
      case (Inr sys')
      then have "\<exists>c. set (objects sys') \<subseteq>
              insert (fst (start (BaseAgent_new c aid, storage sys))) (set (objects sys))"
        by (auto simp add: startAgent_def on_object_def Let_def case_prod_beta
            split: option.splits if_splits)
      with assms have "\<forall>w \<in> set (objects sys'). one_activation w"
        using one_activation_start_new by blast
      with Call StartAgent Inr show ?thesis by (simp add: after_call_def)
    qed
  next
    case (StopAgent aid)
    show ?thesis
    proof (cases "manager_agents sys aid")
      case None
      with Call StopAgent assms show ?thesis by (simp add: after_call_def stopAgent_def)
    next
      case (Some r)
      have "\<forall>w \<in> set (objects (on_object r stop sys)). one_activation w"
        using assms by (rule on_object_preserves) (rule one_activation_stop)
      with Call StopAgent Some show ?thesis by (simp add: after_call_def stopAgent_def)
    qed
  qed
next
  case (Assign agentType task)
  show ?thesis
  proof (cases "assignTask agentType task sys")
    case (Inl err)
    with Assign assms show ?thesis by simp
  next
    case (Inr sys')
    have "\<forall>w \<in> set (objects (on_object r (addTask task) sys)). one_activation w" for r
      using assms by (rule on_object_preserves) (rule one_activation_addTask)
    with Inr assms have "\<forall>w \<in> set (objects sys'). one_activation w"
      by (auto simp add: assignTask_def split: option.splits)
    with Assign Inr show ?thesis by simp
  qed
next
  case (Reports r rep)
  have "\<forall>w \<in> set (objects (on_object r (handler_report rep) sys)). one_activation w"
    using assms by (rule on_object_preserves) (rule one_activation_report)
  with Reports assms show ?thesis by simp
next
  case (Ends r out)
  have "\<forall>w \<in> set (objects (on_object r (processQueue_resume 0 out) sys)). one_activation w"
    using assms by (rule on_object_preserves) (rule one_activation_resume)
  with Ends show ?thesis by simp
qed

text \<open>
  The manager calls \<^verbatim>\<open>start()\<close> on new objects only, and forgets an object when it stops
  it. So whatever the sequence of calls, assignments and handler events, every worker
  object has at most one activation, whose task is its \<^verbatim>\<open>currentTask\<close>: the situation
  of the statements about one worker below.
\<close>

theorem managed_workers_have_one_activation:
  "\<forall>w \<in> set (objects (fold step evs (System_new st))). one_activation w"
proof -
  have "\<forall>w \<in> set (objects (fold step evs sys)). one_activation w"
    if "\<forall>w \<in> set (objects sys). one_activation w" for sys
    using that
  proof (induction evs arbitrary: sys)
    case Nil
    then show ?case by simp
  next
    case (Cons e evs)
    from Cons.prems have "\<forall>w \<in> set (objects (step e sys)). one_activation w"
      by (rule one_activation_step)
    then have "\<forall>w \<in> set (objects (fold step evs (step e sys))). one_activation w"
      by (rule Cons.IH)
    then show ?case by simp
  qed
  from this [of "System_new st"] show ?thesis by (simp add: System_new_def)
qed

lemma sorted_sort_queue: "sorted_wrt (\<lambda>a b. priority b \<le> priority a) (sort_queue q)"
  using sorted_sort_key [of "\<lambda>t. - priority t" q] by (simp add: sort_queue_def sorted_map)

lemma queue_in_order_processQueue:
  "queue_in_order w \<Longrightarrow> queue_in_order (fst (processQueue (w, st)))"
  by (cases "taskQueue w") (auto simp add: processQueue_def Let_def queue_in_order_def)

lemma queue_in_order_addTask:
  "queue_in_order w \<Longrightarrow> queue_in_order (fst (addTask t (w, st)))"
proof -
  have "queue_in_order (w\<lparr>taskQueue := sort_queue (taskQueue w @ [t])\<rparr>)"
    by (simp add: queue_in_order_def sorted_sort_queue)
  then show ?thesis
    using queue_in_order_processQueue [of "w\<lparr>taskQueue := sort_queue (taskQueue w @ [t])\<rparr>" st]
    by (auto simp add: addTask_def Let_def)
qed

lemma queue_in_order_stop: "queue_in_order w \<Longrightarrow> queue_in_order (fst (stop (w, st)))"
  by (simp add: stop_def Let_def queue_in_order_def)

lemma queue_in_order_report:
  "queue_in_order w \<Longrightarrow> queue_in_order (fst (handler_report r (w, st)))"
  by (simp add: fst_handler_report)

lemma queue_in_order_resume:
  "queue_in_order w \<Longrightarrow> queue_in_order (fst (processQueue_resume 0 out (w, st)))"
  by (cases "currentTask w"; cases "taskQueue w")
    (auto simp add: processQueue_resume_def Let_def queue_in_order_def processQueue_def
      split: list.split outcome.split)

lemma queue_in_order_start_new: "queue_in_order (fst (start (BaseAgent_new c aid, st)))"
  by (simp add: start_def processQueue_def BaseAgent_new_def queue_in_order_def Let_def)

lemma queue_in_order_step:
  assumes "\<forall>w \<in> set (objects sys). queue_in_order w"
  shows "\<forall>w \<in> set (objects (step e sys)). queue_in_order w"
proof (cases e)
  case (Call c)
  show ?thesis
  proof (cases c)
    case (StartAgent aid)
    show ?thesis
    proof (cases "startAgent aid sys")
      case (Inl err)
      with Call StartAgent assms show ?thesis by (simp add: after_call_def)
    next
      case (Inr sys')
      then have "\<exists>c. set (objects sys') \<subseteq>
              insert (fst (start (BaseAgent_new c aid, storage sys))) (set (objects sys))"
        by (auto simp add: startAgent_def on_object_def Let_def case_prod_beta
            split: option.splits if_splits)
      with assms have "\<forall>w \<in> set (objects sys'). queue_in_order w"
        using queue_in_order_start_new by blast
      with Call StartAgent Inr show ?thesis by (simp add: after_call_def)
    qed
  next
    case (StopAgent aid)
    show ?thesis
    proof (cases "manager_agents sys aid")
      case None
      with Call StopAgent assms show ?thesis by (simp add: after_call_def stopAgent_def)
    next
      case (Some r)
      have "\<forall>w \<in> set (objects (on_object r stop sys)). queue_in_order w"
        using assms by (rule on_object_preserves) (rule queue_in_order_stop)
      with Call StopAgent Some show ?thesis by (simp add: after_call_def stopAgent_def)
    qed
  qed
next
  case (Assign agentType task)
  show ?thesis
  proof (cases "assignTask agentType task sys")
    case (Inl err)
    with Assign assms show ?thesis by simp
  next
    case (Inr sys')
    have "\<forall>w \<in> set (objects (on_object r (addTask task) sys)). queue_in_order w" for r
      using assms by (rule on_object_preserves) (rule queue_in_order_addTask)
    with Inr assms have "\<forall>w \<in> set (objects sys'). queue_in_order w"
      by (auto simp add: assignTask_def split: option.splits)
    with Assign Inr show ?thesis by simp
  qed
next
  case (Reports r rep)
  have "\<forall>w \<in> set (objects (on_object r (handler_report rep) sys)). queue_in_order w"
    using assms by (rule on_object_preserves) (rule queue_in_order_report)
  with Reports assms show ?thesis by simp
next
  case (Ends r out)
  have "\<forall>w \<in> set (objects (on_object r (processQueue_resume 0 out) sys)). queue_in_order w"
    using assms by (rule on_object_preserves) (rule queue_in_order_resume)
  with Ends show ?thesis by simp
qed

text \<open>
  \<^verbatim>\<open>addTask\<close> sorts the queue and the loop only removes its head. So whatever the sequence
  of calls, assignments and handler events, the queue of every worker object is in
  priority order.
\<close>

theorem managed_queues_are_in_priority_order:
  "\<forall>w \<in> set (objects (fold step evs (System_new st))). queue_in_order w"
proof -
  have "\<forall>w \<in> set (objects (fold step evs sys)). queue_in_order w"
    if "\<forall>w \<in> set (objects sys). queue_in_order w" for sys
    using that
  proof (induction evs arbitrary: sys)
    case Nil
    then show ?case by simp
  next
    case (Cons e evs)
    from Cons.prems have "\<forall>w \<in> set (objects (step e sys)). queue_in_order w"
      by (rule queue_in_order_step)
    then have "\<forall>w \<in> set (objects (fold step evs (step e sys))). queue_in_order w"
      by (rule Cons.IH)
    then show ?case by simp
  qed
  from this [of "System_new st"] show ?thesis by (simp add: System_new_def)
qed


section \<open>Lemmas: the example data\<close>

lemma infra_storage_eq:
  "infra_storage =
     \<lparr>agents = [(1, \<lparr>agent_id = 1, agent_name = ''Infrastructure Agent'',
                        agent_type = ''infrastructure'', status = ''idle'',
                        agent_currentTask = None, progress = 0, config = []\<rparr>)],
      activities = [], systemLogs = [], currentId = 2\<rparr>"
  by (simp add: infra_storage_def infra_insert_def createAgent_def MemStorage_new_def Let_def)

lemma restarted_system_eq:
  "restarted_system =
     \<lparr>storage =
        \<lparr>agents = [(1, \<lparr>agent_id = 1, agent_name = ''Infrastructure Agent'',
                           agent_type = ''infrastructure'', status = ''running'',
                           agent_currentTask = None, progress = 0, config = []\<rparr>)],
         activities = [], systemLogs = [], currentId = 2\<rparr>,
      objects = [], manager_agents = Map.empty\<rparr>"
  by (simp add: restarted_system_def infra_storage_eq System_new_def updateAgent_def)

lemma infra_worker_started_eq:
  "infra_worker_started =
     (\<lparr>agentId = 1, cls = InfrastructureAgent, isRunning = True, taskQueue = [],
       currentTask = None, executing = []\<rparr>,
      \<lparr>agents = [(1, \<lparr>agent_id = 1, agent_name = ''Infrastructure Agent'',
                        agent_type = ''infrastructure'', status = ''running'',
                        agent_currentTask = None, progress = 0, config = []\<rparr>)],
       activities = [],
       systemLogs = [\<lparr>log_id = 2, level = ''info'', message = ''Agent started'',
                      log_source = ''InfrastructureAgent'', log_agentId = 1, metadata = None\<rparr>],
       currentId = 3\<rparr>)"
  by (simp add: infra_worker_started_def infra_storage_eq start_def processQueue_def
      BaseAgent_new_def Let_def updateStatus_def updateAgent_def log_def createSystemLog_def)

lemma infra_worker_busy_eq:
  "infra_worker_busy =
     (\<lparr>agentId = 1, cls = InfrastructureAgent, isRunning = True, taskQueue = [],
       currentTask = Some infra_t1, executing = [infra_t1]\<rparr>,
      \<lparr>agents = [(1, \<lparr>agent_id = 1, agent_name = ''Infrastructure Agent'',
                        agent_type = ''infrastructure'', status = ''working'',
                        agent_currentTask = Some ''generate_terraform'', progress = 0,
                        config = []\<rparr>)],
       activities = [],
       systemLogs = [\<lparr>log_id = 2, level = ''info'', message = ''Agent started'',
                      log_source = ''InfrastructureAgent'', log_agentId = 1, metadata = None\<rparr>,
                     \<lparr>log_id = 3, level = ''info'',
                      message = ''Starting task: generate_terraform'',
                      log_source = ''InfrastructureAgent'', log_agentId = 1, metadata = None\<rparr>],
       currentId = 4\<rparr>)"
  by (simp add: infra_worker_busy_def infra_worker_started_eq addTask_def sort_queue_def
      processQueue_def Let_def updateStatus_def updateAgent_def log_def createSystemLog_def)
    (simp add: infra_t1_def task_of_def)

lemma infra_worker_queued_eq:
  "infra_worker_queued =
     (\<lparr>agentId = 1, cls = InfrastructureAgent, isRunning = True, taskQueue = [infra_t2],
       currentTask = Some infra_t1, executing = [infra_t1]\<rparr>, snd infra_worker_busy)"
  by (simp add: infra_worker_queued_def infra_worker_busy_eq addTask_def sort_queue_def)

lemma infra_worker_confused_fields:
  "isRunning (fst infra_worker_confused)" "executing (fst infra_worker_confused) = [infra_t9]"
  "currentTask (fst infra_worker_confused) = Some infra_t9"
  "cls (fst infra_worker_confused) = InfrastructureAgent"
  "taskQueue (fst infra_worker_confused) = []"
  "error_logs (snd infra_worker_confused) = []"
  by (simp_all add: infra_worker_confused_def infra_worker_started_eq addTask_def sort_queue_def
      processQueue_def Let_def updateStatus_def updateAgent_def log_def createSystemLog_def
      error_logs_def)

lemma started_system_eq:
  "started_system =
     \<lparr>storage = snd infra_worker_started, objects = [fst infra_worker_started],
      manager_agents = [1 \<mapsto> 0]\<rparr>"
  by (simp add: started_system_def run_calls_def after_call_def startAgent_def System_new_def
      getAgent_def infra_storage_eq class_of_type_def on_object_def Let_def
      infra_worker_started_def case_prod_beta)

lemma busy_system_eq:
  "busy_system =
     \<lparr>storage = snd infra_worker_busy, objects = [fst infra_worker_busy],
      manager_agents = [1 \<mapsto> 0]\<rparr>"
  by (simp add: busy_system_def started_system_eq assignTask_def getAgents_def
      infra_worker_started_eq on_object_def infra_worker_busy_def case_prod_beta)

lemma infra_worker_waiting_eq:
  "infra_worker_waiting =
     (\<lparr>agentId = 1, cls = InfrastructureAgent, isRunning = False, taskQueue = [infra_t2],
       currentTask = None, executing = []\<rparr>, infra_storage)"
  by (simp add: infra_worker_waiting_def addTask_def BaseAgent_new_def sort_queue_def)

lemma fold_step_busy_system:
  "fold step [Call (StartAgent 1), Assign ''infrastructure'' infra_t1] (System_new infra_storage)
     = busy_system"
proof -
  have s: "after_call (StartAgent 1) (System_new infra_storage) = started_system"
    by (simp add: started_system_def run_calls_def)
  show ?thesis
    by (simp del: One_nat_def add: s busy_system_def)
qed

lemma restarted_busy_system_fields:
  "map agentId (objects restarted_busy_system) = [1, 1]"
  "map isRunning (objects restarted_busy_system) = [False, True]"
  "map executing (objects restarted_busy_system) = [[infra_t1], []]"
  "manager_agents restarted_busy_system 1 = Some 1"
proof -
  have r: "restarted_busy_system = after_call (StartAgent 1) (after_call (StopAgent 1) busy_system)"
    using fold_step_busy_system by (simp add: restarted_busy_system_def)
  show "map agentId (objects restarted_busy_system) = [1, 1]"
    "map isRunning (objects restarted_busy_system) = [False, True]"
    "map executing (objects restarted_busy_system) = [[infra_t1], []]"
    "manager_agents restarted_busy_system 1 = Some 1"
    by (simp_all add: r busy_system_eq infra_worker_busy_eq after_call_def startAgent_def
        stopAgent_def getAgent_def class_of_type_def on_object_def Let_def
        start_def stop_def processQueue_def BaseAgent_new_def updateStatus_def updateAgent_def
        log_def createSystemLog_def)
qed

lemma two_infra_system_fields:
  "map (\<lambda>a. (agent_id a, agent_type a, status a)) (getAgents (storage two_infra_system))
     = [(1, ''infrastructure'', ''working''), (2, ''infrastructure'', ''working'')]"
  "manager_agents two_infra_system 1 = Some 0"
  "manager_agents two_infra_system 2 = Some 1"
  "map executing (objects two_infra_system) = [[infra_t1], [infra_t2]]"
  "assignTask ''infrastructure'' infra_t3 two_infra_system = Inl (NoRunningAgent ''infrastructure'')"
  by (simp_all add: two_infra_system_def after_call_def startAgent_def assignTask_def
      System_new_def getAgent_def getAgents_def infra_storage_eq infra_insert_def createAgent_def
      class_of_type_def on_object_def Let_def addTask_def sort_queue_def
      start_def processQueue_def BaseAgent_new_def updateStatus_def updateAgent_def
      log_def createSystemLog_def)

section \<open>The queue order\<close>

text \<open>
  C1, as the code has it. \<^verbatim>\<open>addTask\<close> keeps the queue in priority order and the loop takes
  its head. On a worker whose queue is in priority order, a sequence of \<^verbatim>\<open>addTask\<close> calls
  during which the worker takes no task, because it is not started and executes nothing,
  or because it is started and one task is executing throughout, only buffers: the tasks
  then waiting, those that were in the queue followed by those enqueued, are afterwards
  executed in stable priority order (by descending priority, tasks of equal priority in
  this order), on the busy worker after the task that was executing. A worker that is
  started and idle, with an empty queue, takes the first task of such a sequence at once,
  whatever its priority; the others follow it in stable priority order. Priorities 5, 10,
  1, 10 enqueued in this order on a new worker are executed, after \<^verbatim>\<open>start()\<close>, in the
  order of the indices 1, 3, 0, 2.
\<close>

theorem buffered_tasks_drain_by_priority:
  "(queue_in_order w \<longrightarrow>
      (\<not> isRunning w \<and> executing w = [] \<longrightarrow>
         stable_priority_order (fst (drain h (start (fold addTask ts (w, st)))))
           (taskQueue w @ ts))
      \<and> (isRunning w \<and> executing w = [t] \<and> currentTask w = Some t \<longrightarrow>
           hd (fst (drain h (fold addTask ts (w, st)))) = t
           \<and> stable_priority_order (tl (fst (drain h (fold addTask ts (w, st)))))
               (taskQueue w @ ts)))
   \<and> (isRunning w \<and> executing w = [] \<and> currentTask w = None \<and> taskQueue w = [] \<longrightarrow>
        executing (fst (addTask t (w, st))) = [t]
        \<and> hd (fst (drain h (fold addTask (t # ts) (w, st)))) = t
        \<and> stable_priority_order (tl (fst (drain h (fold addTask (t # ts) (w, st))))) ts)
   \<and> fst (drain h (start (fold addTask
             [t0\<lparr>priority := 5\<rparr>, t1\<lparr>priority := 10\<rparr>, t2\<lparr>priority := 1\<rparr>, t3\<lparr>priority := 10\<rparr>]
             (BaseAgent_new c aid, st))))
       = [t1\<lparr>priority := 10\<rparr>, t3\<lparr>priority := 10\<rparr>, t0\<lparr>priority := 5\<rparr>, t2\<lparr>priority := 1\<rparr>]"
proof -
  have buf: "fold addTask us (v, st) = (v\<lparr>taskQueue := sort_queue (taskQueue v @ us)\<rparr>, st)"
    if "\<not> isRunning v \<or> currentTask v \<noteq> None"
      and "sorted_wrt (\<lambda>a b. priority b \<le> priority a) (taskQueue v)" for v us
    using fold_addTask_buffers [of v "taskQueue v" us st] that by (simp add: sort_queue_sorted)
  have a: "fst (drain h (start (fold addTask ts (w, st)))) = sort_queue (taskQueue w @ ts)"
    if "sorted_wrt (\<lambda>a b. priority b \<le> priority a) (taskQueue w)"
      "\<not> isRunning w" "executing w = []"
    using buf [of w ts] that by (simp add: drain_after_start)
  have b: "fst (drain h (fold addTask ts (w, st))) = t # sort_queue (taskQueue w @ ts)"
    if "sorted_wrt (\<lambda>a b. priority b \<le> priority a) (taskQueue w)"
      "isRunning w" "executing w = [t]" "currentTask w = Some t"
    using buf [of w ts] that
      drain_working [of "w\<lparr>taskQueue := sort_queue (taskQueue w @ ts)\<rparr>" t
        "sort_queue (taskQueue w @ ts)" h st]
    by simp
  have c: "executing (fst (addTask t (w, st))) = [t]
           \<and> fst (drain h (fold addTask (t # ts) (w, st))) = t # sort_queue ts"
    if i: "isRunning w" "executing w = []" "currentTask w = None" "taskQueue w = []"
  proof -
    obtain v st1 where v: "addTask t (w, st) = (v, st1)" by (cases "addTask t (w, st)")
    have vf: "isRunning v" "executing v = [t]" "currentTask v = Some t" "taskQueue v = []"
      using v i by (auto simp add: addTask_def sort_queue_def processQueue_def Let_def)
    have "fold addTask ts (v, st1) = (v\<lparr>taskQueue := sort_queue ([] @ ts)\<rparr>, st1)"
      by (rule fold_addTask_buffers) (simp_all add: vf sort_queue_def)
    moreover have "fst (drain h (v\<lparr>taskQueue := sort_queue ts\<rparr>, st1)) = t # sort_queue ts"
      using drain_working [of "v\<lparr>taskQueue := sort_queue ts\<rparr>" t "sort_queue ts" h st1] vf
      by simp
    ultimately show ?thesis using v vf by simp
  qed
  have d: "fst (drain h (start (fold addTask us (BaseAgent_new c aid, st)))) = sort_queue us" for us
  proof -
    have "fold addTask us (BaseAgent_new c aid, st)
            = ((BaseAgent_new c aid)\<lparr>taskQueue := sort_queue ([] @ us)\<rparr>, st)"
      by (rule fold_addTask_buffers) (simp_all add: BaseAgent_new_def sort_queue_def)
    then show ?thesis
      by (simp add: drain_after_start BaseAgent_new_def)
  qed
  have 1: "queue_in_order w \<longrightarrow>
      (\<not> isRunning w \<and> executing w = [] \<longrightarrow>
         stable_priority_order (fst (drain h (start (fold addTask ts (w, st)))))
           (taskQueue w @ ts))
      \<and> (isRunning w \<and> executing w = [t] \<and> currentTask w = Some t \<longrightarrow>
           hd (fst (drain h (fold addTask ts (w, st)))) = t
           \<and> stable_priority_order (tl (fst (drain h (fold addTask ts (w, st)))))
               (taskQueue w @ ts))"
    using a b by (simp add: stable_priority_order_sort_queue queue_in_order_def)
  have 2: "isRunning w \<and> executing w = [] \<and> currentTask w = None \<and> taskQueue w = [] \<longrightarrow>
        executing (fst (addTask t (w, st))) = [t]
        \<and> hd (fst (drain h (fold addTask (t # ts) (w, st)))) = t
        \<and> stable_priority_order (tl (fst (drain h (fold addTask (t # ts) (w, st))))) ts"
    using c by (simp add: stable_priority_order_sort_queue)
  have 3: "fst (drain h (start (fold addTask
             [t0\<lparr>priority := 5\<rparr>, t1\<lparr>priority := 10\<rparr>, t2\<lparr>priority := 1\<rparr>, t3\<lparr>priority := 10\<rparr>]
             (BaseAgent_new c aid, st))))
       = [t1\<lparr>priority := 10\<rparr>, t3\<lparr>priority := 10\<rparr>, t0\<lparr>priority := 5\<rparr>, t2\<lparr>priority := 1\<rparr>]"
    unfolding d by (simp add: sort_queue_def)
  from 1 2 3 show ?thesis by blast
qed


theorem buffered_tasks_drain_by_priority_witness:
  "queue_in_order (fst infra_worker_waiting)
   \<and> \<not> isRunning (fst infra_worker_waiting) \<and> executing (fst infra_worker_waiting) = []
   \<and> fst (drain returns_at_once (start (fold addTask four_tasks infra_worker_waiting)))
       = [four_tasks ! 1, four_tasks ! 3, infra_t2, four_tasks ! 0, four_tasks ! 2]
   \<and> queue_in_order (fst infra_worker_queued)
   \<and> isRunning (fst infra_worker_queued) \<and> executing (fst infra_worker_queued) = [infra_t1]
   \<and> currentTask (fst infra_worker_queued) = Some infra_t1
   \<and> fst (drain returns_at_once (fold addTask four_tasks infra_worker_queued))
       = [infra_t1, four_tasks ! 1, four_tasks ! 3, infra_t2, four_tasks ! 0, four_tasks ! 2]
   \<and> isRunning (fst infra_worker_started) \<and> executing (fst infra_worker_started) = []
   \<and> currentTask (fst infra_worker_started) = None \<and> taskQueue (fst infra_worker_started) = []
   \<and> tl (fst (drain returns_at_once (fold addTask four_tasks infra_worker_started)))
       = [four_tasks ! 1, four_tasks ! 3, four_tasks ! 2]"
proof -
  have a: "queue_in_order (fst infra_worker_waiting)"
      "\<not> isRunning (fst infra_worker_waiting)" "executing (fst infra_worker_waiting) = []"
    by (simp_all add: infra_worker_waiting_eq queue_in_order_def)
  have b: "queue_in_order (fst infra_worker_queued)"
      "isRunning (fst infra_worker_queued)" "executing (fst infra_worker_queued) = [infra_t1]"
      "currentTask (fst infra_worker_queued) = Some infra_t1"
    by (simp_all add: infra_worker_queued_eq queue_in_order_def)
  have c: "isRunning (fst infra_worker_started)" "executing (fst infra_worker_started) = []"
      "currentTask (fst infra_worker_started) = None" "taskQueue (fst infra_worker_started) = []"
    by (simp_all add: infra_worker_started_eq)
  have q: "taskQueue (fst infra_worker_waiting) = [infra_t2]"
      "taskQueue (fst infra_worker_queued) = [infra_t2]"
    by (simp_all add: infra_worker_waiting_eq infra_worker_queued_eq)
  have f: "four_tasks = four_tasks ! 0 # tl four_tasks" by (simp add: four_tasks_def)
  note A = buffered_tasks_drain_by_priority [where w = "fst infra_worker_waiting"
      and h = returns_at_once and ts = four_tasks and st = "snd infra_worker_waiting"]
  note B = buffered_tasks_drain_by_priority [where w = "fst infra_worker_queued"
      and h = returns_at_once and ts = four_tasks and st = "snd infra_worker_queued"
      and t = infra_t1]
  note C = buffered_tasks_drain_by_priority [where w = "fst infra_worker_started"
      and h = returns_at_once and ts = "tl four_tasks" and st = "snd infra_worker_started"
      and t = "four_tasks ! 0"]
  from A a q have "stable_priority_order
      (fst (drain returns_at_once (start (fold addTask four_tasks infra_worker_waiting))))
      (infra_t2 # four_tasks)"
    by simp
  then have 1: "fst (drain returns_at_once (start (fold addTask four_tasks infra_worker_waiting)))
      = sort_queue (infra_t2 # four_tasks)"
    by (rule stable_priority_order_unique)
  from B b q have hd2: "hd (fst (drain returns_at_once (fold addTask four_tasks infra_worker_queued))) = infra_t1"
    and "stable_priority_order
      (tl (fst (drain returns_at_once (fold addTask four_tasks infra_worker_queued))))
      (infra_t2 # four_tasks)"
    by simp_all
  then have 2: "tl (fst (drain returns_at_once (fold addTask four_tasks infra_worker_queued)))
      = sort_queue (infra_t2 # four_tasks)"
    using stable_priority_order_unique by blast
  from C c f have "stable_priority_order
      (tl (fst (drain returns_at_once (fold addTask four_tasks infra_worker_started))))
      (tl four_tasks)"
    by simp
  then have 3: "tl (fst (drain returns_at_once (fold addTask four_tasks infra_worker_started)))
      = sort_queue (tl four_tasks)"
    by (rule stable_priority_order_unique)
  have s1: "sort_queue (infra_t2 # four_tasks)
      = [four_tasks ! 1, four_tasks ! 3, infra_t2, four_tasks ! 0, four_tasks ! 2]"
    by (simp add: sort_queue_def four_tasks_def infra_t2_def task_of_def)
  have ne: "fst (drain returns_at_once (fold addTask four_tasks infra_worker_queued)) \<noteq> []"
    using 2 unfolding s1 by auto
  have r2: "fst (drain returns_at_once (fold addTask four_tasks infra_worker_queued))
      = infra_t1 # sort_queue (infra_t2 # four_tasks)"
    using hd2 2 ne by (metis list.collapse)
  have s2: "sort_queue (tl four_tasks) = [four_tasks ! 1, four_tasks ! 3, four_tasks ! 2]"
    by (simp add: sort_queue_def four_tasks_def task_of_def)
  show ?thesis
    using a b c 1 r2 3 unfolding s1 s2 by simp
qed

text \<open>
  C1, counterexample. On a worker that is started and idle, \<^verbatim>\<open>addTask\<close> calls
  \<^verbatim>\<open>processQueue\<close> at once, which takes the task just enqueued: of priorities 5, 10, 1, 10
  the task of priority 5 is executed first, and the order of the indices is 0, 1, 3, 2.
\<close>

theorem started_worker_takes_first_task_counterexample:
  "isRunning (fst infra_worker_started) \<and> executing (fst infra_worker_started) = []
   \<and> map priority four_tasks = [5, 10, 1, 10]
   \<and> fst (drain returns_at_once (fold addTask four_tasks infra_worker_started))
       = [four_tasks ! 0, four_tasks ! 1, four_tasks ! 3, four_tasks ! 2]
   \<and> \<not> sorted_wrt (\<lambda>a b. priority b \<le> priority a)
         (fst (drain returns_at_once (fold addTask four_tasks infra_worker_started)))"
proof -
  obtain w st where s: "fold addTask four_tasks infra_worker_started = (w, st)"
    by (cases "fold addTask four_tasks infra_worker_started")
  have w: "isRunning w" "executing w = [four_tasks ! 0]" "currentTask w = Some (four_tasks ! 0)"
      "taskQueue w = [four_tasks ! 1, four_tasks ! 3, four_tasks ! 2]"
    using s
    by (auto simp add: infra_worker_started_eq four_tasks_def addTask_def processQueue_def
        Let_def sort_queue_def task_of_def)
  from drain_working [OF w, of returns_at_once st]
  have "fst (drain returns_at_once (w, st))
          = [four_tasks ! 0, four_tasks ! 1, four_tasks ! 3, four_tasks ! 2]"
    by simp
  then show ?thesis
    unfolding s by (simp add: four_tasks_def task_of_def infra_worker_started_eq)
qed

section \<open>The life cycle of a worker\<close>




section \<open>Stopping\<close>

text \<open>
  C5. \<^verbatim>\<open>stop()\<close> while a task is executing leaves the activation suspended in its handler
  and stores the status \<^verbatim>\<open>idle\<close> at once. Whatever the handler reports afterwards, the
  status stays \<^verbatim>\<open>idle\<close>; when the handler ends, its end is logged as for any task
  (completed or failed), and only then does the loop find the flag cleared: it takes no
  further task from the queue.
\<close>

theorem stop_while_executing:
  assumes "executing w = [t]" and "currentTask w = Some t"
    and "getAgent (agentId w) st = Some a"
  shows "let s1 = stop (w, st); s2 = fold handler_report rs s1;
             s3 = processQueue_resume 0 out s2
         in executing (fst s1) = [t] \<and> currentTask (fst s1) = Some t
            \<and> map_option status (persisted s1) = Some ''idle''
            \<and> executing (fst s2) = [t] \<and> map_option status (persisted s2) = Some ''idle''
            \<and> map message (systemLogs (snd s3)) = map message (systemLogs (snd s2)) @
                 [(case out of Returned \<Rightarrow> ''Completed task: '' | Threw e \<Rightarrow> ''Task failed: '')
                    @ task_type t]
            \<and> executing (fst s3) = [] \<and> taskQueue (fst s3) = taskQueue w
            \<and> map_option status (persisted s3) = Some ''idle''"
proof -
  obtain w1 st1 where s1: "stop (w, st) = (w1, st1)" by (cases "stop (w, st)")
  have w1: "w1 = w\<lparr>isRunning := False\<rparr>" using s1 by (simp add: stop_def Let_def)
  have st1: "map_option status (getAgent (agentId w) st1) = Some ''idle''"
    using s1 assms(3) by (auto simp add: stop_def Let_def updateStatus_def log_def getAgent_updateAgent)
  obtain st2 where s2: "fold handler_report rs (w1, st1) = (w1, st2)"
    using fold_handler_report_pair by blast
  have st2: "map_option status (getAgent (agentId w) st2) = Some ''idle''"
    using persisted_fold_reports_status [of "agentId w" rs w1 st1] s2 st1 by simp
  have r: "processQueue_resume 0 out (w1, st2) =
      (w1\<lparr>executing := [], currentTask := None\<rparr>,
       updateProgress w1 0 (log w1 (case out of Returned \<Rightarrow> ''info'' | Threw e \<Rightarrow> ''error'')
          ((case out of Returned \<Rightarrow> ''Completed task: '' | Threw e \<Rightarrow> ''Task failed: '') @ task_type t)
          (case out of Returned \<Rightarrow> None | Threw e \<Rightarrow> Some e) st2))"
    using assms(1,2) w1
    by (cases out) (simp_all add: processQueue_resume_def processQueue_def Let_def log_def updateProgress_def)
  show ?thesis
    unfolding Let_def s1 s2 r using assms(1,2) w1 st1 st2
    by (simp add: persisted_def updateProgress_def log_def getAgent_updateAgent systemLogs_createSystemLog option.map_comp comp_def)
qed

theorem stop_while_executing_witness:
  "executing (fst infra_worker_busy) = [infra_t1]
   \<and> currentTask (fst infra_worker_busy) = Some infra_t1
   \<and> getAgent (agentId (fst infra_worker_busy)) (snd infra_worker_busy)
       = Some (snd (hd (agents (snd infra_worker_busy))))
   \<and> executing (fst (stop infra_worker_busy)) = [infra_t1]
   \<and> map_option status (persisted (stop infra_worker_busy)) = Some ''idle''
   \<and> executing (fst (processQueue_resume 0 Returned (stop infra_worker_busy))) = []"
proof -
  have h1: "executing (fst infra_worker_busy) = [infra_t1]"
    and h2: "currentTask (fst infra_worker_busy) = Some infra_t1"
    and h3: "getAgent (agentId (fst infra_worker_busy)) (snd infra_worker_busy)
       = Some (snd (hd (agents (snd infra_worker_busy))))"
    by (simp_all add: infra_worker_busy_eq getAgent_def)
  note T = stop_while_executing [OF h1 h2 h3, of "[]" Returned]
  show ?thesis using h1 h2 h3 T by (simp add: Let_def)
qed

section \<open>After a task\<close>





section \<open>Failing tasks\<close>

text \<open>
  C3. A running worker is executing a task, with any queue behind it. Whatever the
  handlers do, the loop executes the task and then every queued task, each once and in
  queue order, and ends with an empty queue, still running: a handler that throws stops
  nothing and its task is not put back. The system log gains exactly one error-level
  record for each task whose \<^verbatim>\<open>executeTask\<close> threw, with the error's message as metadata,
  and none for the others.
\<close>

theorem failing_task_does_not_stop_the_queue:
  assumes "isRunning w" and "executing w = [t]" and "currentTask w = Some t"
  shows "fst (drain h (w, st)) = t # taskQueue w
         \<and> taskQueue (fst (snd (drain h (w, st)))) = []
         \<and> executing (fst (snd (drain h (w, st)))) = []
         \<and> isRunning (fst (snd (drain h (w, st))))
         \<and> error_logs (snd (snd (drain h (w, st)))) =
             error_logs st @
             map (\<lambda>t. (''Task failed: '' @ task_type t, failure (executeTask (cls w) t (h t))))
               (filter (\<lambda>t. failure (executeTask (cls w) t (h t)) \<noteq> None) (t # taskQueue w))"
  using drain_working [OF assms refl] .

theorem failing_task_does_not_stop_the_queue_witness:
  "isRunning (fst infra_worker_queued) \<and> executing (fst infra_worker_queued) = [infra_t1]
   \<and> currentTask (fst infra_worker_queued) = Some infra_t1
   \<and> fst (drain fails_at_once infra_worker_queued) = [infra_t1, infra_t2]
   \<and> error_logs (snd (snd (drain fails_at_once infra_worker_queued))) =
       [(''Task failed: generate_terraform'', Some ''collaborator failed''),
        (''Task failed: deploy_infrastructure'', Some ''collaborator failed'')]"
proof -
  have h1: "isRunning (fst infra_worker_queued)"
    and h2: "executing (fst infra_worker_queued) = [infra_t1]"
    and h3: "currentTask (fst infra_worker_queued) = Some infra_t1"
    by (simp_all add: infra_worker_queued_eq)
  have e: "error_logs (snd infra_worker_queued) = []"
    by (simp add: infra_worker_queued_eq infra_worker_busy_eq error_logs_def)
  have f: "failure (executeTask InfrastructureAgent infra_t1 (fails_at_once infra_t1)) = Some ''collaborator failed''"
      "failure (executeTask InfrastructureAgent infra_t2 (fails_at_once infra_t2)) = Some ''collaborator failed''"
    by (simp_all add: failure_def executeTask_def fails_at_once_def infra_t1_def infra_t2_def task_of_def)
  have q: "taskQueue (fst infra_worker_queued) = [infra_t2]" "cls (fst infra_worker_queued) = InfrastructureAgent"
    by (simp_all add: infra_worker_queued_eq)
  have k: "task_type infra_t1 = ''generate_terraform''" "task_type infra_t2 = ''deploy_infrastructure''"
    by (simp_all add: infra_t1_def infra_t2_def task_of_def)
  from failing_task_does_not_stop_the_queue [OF h1 h2 h3, of fails_at_once "snd infra_worker_queued"]
  show ?thesis using h1 h2 h3 e f q k by simp
qed


text \<open>
  C7. In an \<^verbatim>\<open>InfrastructureAgent\<close> or a \<^verbatim>\<open>LearningAgent\<close>, a task whose kind has no
  \<^verbatim>\<open>case\<close> label makes \<^verbatim>\<open>executeTask\<close> throw before any handler runs, and the loop goes on
  exactly as after a handler that threw that error: one error-level record with the
  message \<^verbatim>\<open>Task failed: <kind>\<close>, the task dropped, every queued task still executed,
  the worker still running. \<^verbatim>\<open>assignTask\<close> does not look at the kind: it succeeds whenever
  the storage lists a running agent of the requested type.
\<close>

theorem unknown_kind_is_a_failed_task:
  assumes "unknown_kind (cls w) (task_type t)"
    and "isRunning w" and "executing w = [t]" and "currentTask w = Some t"
  shows "executeTask (cls w) t b = ([], Threw (''Unknown task type: '' @ task_type t))
         \<and> processQueue_resume 0 (snd (executeTask (cls w) t b))
               (fold handler_report (fst (executeTask (cls w) t b)) (w, st))
             = processQueue_resume 0 (Threw (''Unknown task type: '' @ task_type t)) (w, st)
         \<and> error_logs (snd (processQueue_resume 0 (snd (executeTask (cls w) t b))
               (fold handler_report (fst (executeTask (cls w) t b)) (w, st))))
             = error_logs st @
               [(''Task failed: '' @ task_type t, Some (''Unknown task type: '' @ task_type t))]
         \<and> fst (drain h (w, st)) = t # taskQueue w
         \<and> taskQueue (fst (snd (drain h (w, st)))) = []
         \<and> isRunning (fst (snd (drain h (w, st))))
         \<and> (\<forall>agentType sys.
               find (\<lambda>a. agent_type a = agentType \<and> status a = ''running'')
                 (getAgents (storage sys)) \<noteq> None
               \<longrightarrow> \<not> isl (assignTask agentType t sys))"
proof -
  have x: "executeTask (cls w) t b = ([], Threw (''Unknown task type: '' @ task_type t))"
    using assms(1) by (rule executeTask_unknown)
  have e: "error_logs (snd (processQueue_resume 0 (Threw (''Unknown task type: '' @ task_type t)) (w, st)))
             = error_logs st @
               [(''Task failed: '' @ task_type t, Some (''Unknown task type: '' @ task_type t))]"
    unfolding resume_single [OF assms(3,4)]
    by (simp add: processQueue_def updateStatus_def updateProgress_def error_logs_log Let_def
        split: list.split)
  from drain_working [OF assms(2,3,4) refl, of h st] x e assignTask_found
  show ?thesis by simp
qed

theorem unknown_kind_is_a_failed_task_witness:
  "unknown_kind (cls (fst infra_worker_confused)) (task_type infra_t9)
   \<and> isRunning (fst infra_worker_confused)
   \<and> executing (fst infra_worker_confused) = [infra_t9]
   \<and> currentTask (fst infra_worker_confused) = Some infra_t9
   \<and> executeTask InfrastructureAgent infra_t9 (returns_at_once infra_t9)
       = ([], Threw ''Unknown task type: restart_cluster'')
   \<and> error_logs (snd (processQueue_resume 0
         (snd (executeTask InfrastructureAgent infra_t9 (returns_at_once infra_t9)))
         (fold handler_report (fst (executeTask InfrastructureAgent infra_t9 (returns_at_once infra_t9)))
            infra_worker_confused)))
       = [(''Task failed: restart_cluster'', Some ''Unknown task type: restart_cluster'')]"
proof -
  have k: "task_type infra_t9 = ''restart_cluster''"
    by (simp add: infra_t9_def task_of_def)
  have h1: "unknown_kind (cls (fst infra_worker_confused)) (task_type infra_t9)"
    by (simp add: infra_worker_confused_fields k unknown_kind_def)
  note h2 = infra_worker_confused_fields(1) and h3 = infra_worker_confused_fields(2)
    and h4 = infra_worker_confused_fields(3)
  note T = unknown_kind_is_a_failed_task [OF h1 h2 h3 h4, of "returns_at_once infra_t9"
      "snd infra_worker_confused" returns_at_once]
  from T have A: "executeTask (cls (fst infra_worker_confused)) infra_t9 (returns_at_once infra_t9)
      = ([], Threw (''Unknown task type: '' @ task_type infra_t9))"
    by blast
  from T have B: "error_logs (snd (processQueue_resume 0
         (snd (executeTask (cls (fst infra_worker_confused)) infra_t9 (returns_at_once infra_t9)))
         (fold handler_report
            (fst (executeTask (cls (fst infra_worker_confused)) infra_t9 (returns_at_once infra_t9)))
            (fst infra_worker_confused, snd infra_worker_confused))))
       = error_logs (snd infra_worker_confused) @
          [(''Task failed: '' @ task_type infra_t9, Some (''Unknown task type: '' @ task_type infra_t9))]"
    by blast
  show ?thesis
    using h1 h2 h3 h4 A B by (simp add: k infra_worker_confused_fields)
qed

section \<open>The registry: one worker per agent\<close>

text \<open>
  C9, as the code has it. After any sequence of \<^verbatim>\<open>startAgent\<close>, \<^verbatim>\<open>stopAgent\<close> and
  \<^verbatim>\<open>assignTask\<close> calls and handler events on a new manager: no two started worker
  objects belong to the same agent id; what the map holds for an id is a started worker
  of that id; every worker object that the map does not hold is stopped; and
  \<^verbatim>\<open>startAgent\<close> for an id that is in the map returns normally and changes nothing. But
  \<^verbatim>\<open>stopAgent\<close> leaves the worker it removes as it was, stopped, with the task it was
  executing and its queue: after \<^verbatim>\<open>stopAgent\<close> and \<^verbatim>\<open>startAgent\<close> for a registered id
  there are that stopped worker and a new started one for the same id.
\<close>

theorem one_started_worker_per_agent:
  "let sys = fold step evs (System_new st)
   in (\<forall>r1 < length (objects sys). \<forall>r2 < length (objects sys).
         isRunning (objects sys ! r1) \<and> isRunning (objects sys ! r2)
         \<and> agentId (objects sys ! r1) = agentId (objects sys ! r2) \<longrightarrow> r1 = r2)
      \<and> (\<forall>aid r. manager_agents sys aid = Some r \<longrightarrow>
            r < length (objects sys) \<and> agentId (objects sys ! r) = aid
            \<and> isRunning (objects sys ! r))
      \<and> (\<forall>r < length (objects sys).
            manager_agents sys (agentId (objects sys ! r)) \<noteq> Some r \<longrightarrow>
            \<not> isRunning (objects sys ! r))
      \<and> (\<forall>aid. manager_agents sys aid \<noteq> None \<longrightarrow> startAgent aid sys = Inr sys)
      \<and> (\<forall>aid r. manager_agents sys aid = Some r \<longrightarrow>
            (let sys' = after_call (StartAgent aid) (after_call (StopAgent aid) sys);
                 n = length (objects sys)
             in length (objects sys') = Suc n \<and> manager_agents sys' aid = Some n
                \<and> agentId (objects sys' ! n) = aid \<and> isRunning (objects sys' ! n)
                \<and> agentId (objects sys' ! r) = aid \<and> \<not> isRunning (objects sys' ! r)
                \<and> executing (objects sys' ! r) = executing (objects sys ! r)
                \<and> taskQueue (objects sys' ! r) = taskQueue (objects sys ! r)))"
proof -
  define sys where "sys = fold step evs (System_new st)"
  have inv: "registry_ok sys"
    unfolding sys_def by (rule registry_ok_steps) (rule registry_ok_new)
  have a: "r1 = r2" if "r1 < length (objects sys)" "r2 < length (objects sys)"
    "isRunning (objects sys ! r1)" "isRunning (objects sys ! r2)"
    "agentId (objects sys ! r1) = agentId (objects sys ! r2)" for r1 r2
  proof -
    from inv that(1,3) have 1: "manager_agents sys (agentId (objects sys ! r1)) = Some r1"
      unfolding registry_ok_def by blast
    from inv that(2,4) have 2: "manager_agents sys (agentId (objects sys ! r2)) = Some r2"
      unfolding registry_ok_def by blast
    from 1 have "manager_agents sys (agentId (objects sys ! r2)) = Some r1"
      by (simp only: that(5))
    with 2 show ?thesis by simp
  qed
  have b: "r < length (objects sys) \<and> agentId (objects sys ! r) = aid \<and> isRunning (objects sys ! r)"
    if "manager_agents sys aid = Some r" for aid r
    using inv that by (simp add: registry_ok_def)
  have c: "startAgent aid sys = Inr sys" if "manager_agents sys aid \<noteq> None" for aid
  proof -
    from that obtain r where r: "manager_agents sys aid = Some r" by auto
    with inv have "known_type (storage sys) aid" by (simp add: registry_ok_def)
    with r show ?thesis by (auto simp add: startAgent_def known_type_def split: option.splits)
  qed
  have d: "\<not> isRunning (objects sys ! r)"
    if "r < length (objects sys)" "manager_agents sys (agentId (objects sys ! r)) \<noteq> Some r" for r
    using inv that unfolding registry_ok_def by blast
  have e: "let sys' = after_call (StartAgent aid) (after_call (StopAgent aid) sys);
               n = length (objects sys)
           in length (objects sys') = Suc n \<and> manager_agents sys' aid = Some n
              \<and> agentId (objects sys' ! n) = aid \<and> isRunning (objects sys' ! n)
              \<and> agentId (objects sys' ! r) = aid \<and> \<not> isRunning (objects sys' ! r)
              \<and> executing (objects sys' ! r) = executing (objects sys ! r)
              \<and> taskQueue (objects sys' ! r) = taskQueue (objects sys ! r)"
    if m: "manager_agents sys aid = Some r" for aid r
  proof -
    from inv m have r: "r < length (objects sys)" "agentId (objects sys ! r) = aid"
      and kt: "known_type (storage sys) aid"
      by (simp_all add: registry_ok_def)
    define w1 where "w1 = fst (stop (objects sys ! r, storage sys))"
    define st1 where "st1 = snd (stop (objects sys ! r, storage sys))"
    define sys1 where "sys1 = \<lparr>storage = st1, objects = (objects sys)[r := w1],
                      manager_agents = (manager_agents sys)(aid := None)\<rparr>"
    have s1: "after_call (StopAgent aid) sys = sys1"
      using stopAgent_registered [OF m r(1)]
      by (simp add: after_call_def sys1_def w1_def st1_def)
    have "known_type st1 aid" using kt by (simp add: st1_def)
    then obtain a1 c1 where g1: "getAgent aid (storage sys1) = Some a1"
      and c1: "class_of_type (agent_type a1) = Some c1"
      by (auto simp add: known_type_def sys1_def split: option.splits)
    have n1: "manager_agents sys1 aid = None" by (simp add: sys1_def)
    define w2 where "w2 = fst (start (BaseAgent_new c1 aid, st1))"
    have s2: "after_call (StartAgent aid) sys1 =
        \<lparr>storage = snd (start (BaseAgent_new c1 aid, st1)),
         objects = (objects sys)[r := w1] @ [w2],
         manager_agents = ((manager_agents sys)(aid := None))(aid \<mapsto> length (objects sys))\<rparr>"
      using startAgent_new [OF n1 g1 c1]
      by (simp add: after_call_def sys1_def w2_def)
    have w1: "agentId w1 = aid" "\<not> isRunning w1"
        "executing w1 = executing (objects sys ! r)" "taskQueue w1 = taskQueue (objects sys ! r)"
      using r by (simp_all add: w1_def stop_fields stop_queue)
    have w2: "agentId w2 = aid" "isRunning w2"
      by (simp_all add: w2_def start_fields BaseAgent_new_def)
    show ?thesis
      unfolding Let_def s1 s2 using r(1) w1 w2 by (simp add: nth_append)
  qed
  show ?thesis
    unfolding Let_def sys_def [symmetric] using a b c d e [unfolded Let_def] by blast
qed

theorem one_started_worker_per_agent_witness:
  "manager_agents busy_system 1 = Some 0
   \<and> startAgent 1 busy_system = Inr busy_system
   \<and> executing (objects busy_system ! 0) = [infra_t1]
   \<and> executing (objects (after_call (StartAgent 1) (after_call (StopAgent 1) busy_system)) ! 0)
       = [infra_t1]
   \<and> \<not> isRunning (objects (after_call (StartAgent 1) (after_call (StopAgent 1) busy_system)) ! 0)
   \<and> isRunning (objects (after_call (StartAgent 1) (after_call (StopAgent 1) busy_system)) ! 1)
   \<and> manager_agents (after_call (StartAgent 1) (after_call (StopAgent 1) busy_system)) 1 = Some 1"
proof -
  note T = one_started_worker_per_agent
    [of "[Call (StartAgent 1), Assign ''infrastructure'' infra_t1]" infra_storage,
      unfolded Let_def fold_step_busy_system]
  have h: "manager_agents busy_system 1 = Some 0"
    and e: "executing (objects busy_system ! 0) = [infra_t1]"
    and n: "length (objects busy_system) = 1"
    by (simp_all add: busy_system_eq infra_worker_busy_eq)
  from h have h': "manager_agents busy_system 1 \<noteq> None" by simp
  from T h' have s: "startAgent 1 busy_system = Inr busy_system" by blast
  from T h have r: "length (objects (after_call (StartAgent 1) (after_call (StopAgent 1) busy_system)))
        = Suc (length (objects busy_system))
      \<and> manager_agents (after_call (StartAgent 1) (after_call (StopAgent 1) busy_system)) 1
        = Some (length (objects busy_system))
      \<and> agentId (objects (after_call (StartAgent 1) (after_call (StopAgent 1) busy_system))
          ! length (objects busy_system)) = 1
      \<and> isRunning (objects (after_call (StartAgent 1) (after_call (StopAgent 1) busy_system))
          ! length (objects busy_system))
      \<and> agentId (objects (after_call (StartAgent 1) (after_call (StopAgent 1) busy_system)) ! 0) = 1
      \<and> \<not> isRunning (objects (after_call (StartAgent 1) (after_call (StopAgent 1) busy_system)) ! 0)
      \<and> executing (objects (after_call (StartAgent 1) (after_call (StopAgent 1) busy_system)) ! 0)
        = executing (objects busy_system ! 0)
      \<and> taskQueue (objects (after_call (StartAgent 1) (after_call (StopAgent 1) busy_system)) ! 0)
        = taskQueue (objects busy_system ! 0)"
    by blast
  show ?thesis using h s e r unfolding n by simp
qed

text \<open>
  C9, counterexample. The manager starts agent 1 and assigns it a task; while the task is
  executing, agent 1 is stopped and started again. There are now two worker objects for
  agent 1: the first one, stopped and still executing the task, and the second one,
  started, which the map holds.
\<close>

theorem restart_while_executing_counterexample:
  "map agentId (objects restarted_busy_system) = [1, 1]
   \<and> map isRunning (objects restarted_busy_system) = [False, True]
   \<and> map executing (objects restarted_busy_system) = [[infra_t1], []]
   \<and> manager_agents restarted_busy_system 1 = Some 1"
  using restarted_busy_system_fields by simp

section \<open>The registry: misuse and lost tasks\<close>

text \<open>
  C4, the code at the failing inputs. The manager has started the infrastructure agent
  and assigned it one task, which its worker is executing: the stored status is
  \<^verbatim>\<open>working\<close> and \<^verbatim>\<open>getActiveAgents\<close> lists the agent. A second \<^verbatim>\<open>assignTask\<close> for the same
  type throws \<^verbatim>\<open>No running agent of type infrastructure found\<close>, because \<^verbatim>\<open>assignTask\<close>
  compares the status with \<^verbatim>\<open>running\<close> only. With two infrastructure agents started, the
  second task does not go to the first agent, which is \<^verbatim>\<open>working\<close>, but to the second
  one, and a third task is refused.
\<close>

theorem assignTask_rejects_working_agent:
  "map status (getAgents (storage busy_system)) = [''working'']
   \<and> map agent_type (getAgents (storage busy_system)) = [''infrastructure'']
   \<and> map status (getActiveAgents (storage busy_system)) = [''working'']
   \<and> manager_agents busy_system 1 = Some 0
   \<and> executing (objects busy_system ! 0) = [infra_t1]
   \<and> assignTask ''infrastructure'' infra_t2 busy_system = Inl (NoRunningAgent ''infrastructure'')
   \<and> map (\<lambda>a. (agent_id a, agent_type a, status a)) (getAgents (storage two_infra_system))
       = [(1, ''infrastructure'', ''working''), (2, ''infrastructure'', ''working'')]
   \<and> map executing (objects two_infra_system) = [[infra_t1], [infra_t2]]
   \<and> manager_agents two_infra_system 1 = Some 0 \<and> manager_agents two_infra_system 2 = Some 1
   \<and> assignTask ''infrastructure'' infra_t3 two_infra_system
       = Inl (NoRunningAgent ''infrastructure'')"
  using two_infra_system_fields
  by (simp add: busy_system_eq infra_worker_busy_eq getAgents_def getActiveAgents_def
      assignTask_def)

text \<open>
  C8, as the code has it. \<^verbatim>\<open>stopAgent\<close> on an id that has no worker in the manager's map
  throws nothing: it returns normally and leaves the storage, the worker objects and the
  map as they were. The claim that this misuse is surfaced as a ``not found'' failure
  does not hold.
\<close>

theorem stopAgent_unregistered_is_noop:
  "manager_agents sys aid = None \<Longrightarrow> stopAgent aid sys = Inr sys"
  by (simp add: stopAgent_def)

theorem stopAgent_unregistered_is_noop_witness:
  "manager_agents restarted_system 1 = None \<and>
   stopAgent 1 restarted_system = Inr restarted_system"
proof -
  have h: "manager_agents restarted_system 1 = None"
    by (simp add: restarted_system_eq)
  from h stopAgent_unregistered_is_noop [OF h] show ?thesis by simp
qed

text \<open>
  C8, counterexample: a manager that has never started a worker is asked to stop agent 7;
  the call succeeds.
\<close>

theorem stopAgent_not_found_counterexample:
  "manager_agents (System_new MemStorage_new) 7 = None \<and>
   \<not> isl (stopAgent 7 (System_new MemStorage_new))"
  by (simp add: stopAgent_def System_new_def)

text \<open>
  C10. When the first agent of the requested type that the storage lists as
  \<^verbatim>\<open>running\<close> has no worker in the manager's map, \<^verbatim>\<open>assignTask\<close> returns normally and
  nothing has changed: no queue holds the task, nothing is logged. The task is lost
  without a failure.
\<close>

theorem assignTask_unregistered_discards:
  "find (\<lambda>a. agent_type a = agentType \<and> status a = ''running'') (getAgents (storage sys))
     = Some targetAgent \<Longrightarrow>
   manager_agents sys (agent_id targetAgent) = None \<Longrightarrow>
   assignTask agentType task sys = Inr sys"
  by (simp add: assignTask_def)

theorem assignTask_unregistered_discards_witness:
  "find (\<lambda>a. agent_type a = ''infrastructure'' \<and> status a = ''running'')
     (getAgents (storage restarted_system))
     = Some (snd (hd (agents (storage restarted_system)))) \<and>
   manager_agents restarted_system (agent_id (snd (hd (agents (storage restarted_system)))))
     = None \<and>
   assignTask ''infrastructure'' (task_of ''infra_1'' ''generate_terraform'' 8) restarted_system
     = Inr restarted_system"
proof -
  have h1: "find (\<lambda>a. agent_type a = ''infrastructure'' \<and> status a = ''running'')
              (getAgents (storage restarted_system))
            = Some (snd (hd (agents (storage restarted_system))))"
    by (simp add: restarted_system_eq getAgents_def)
  have h2: "manager_agents restarted_system
              (agent_id (snd (hd (agents (storage restarted_system))))) = None"
    by (simp add: restarted_system_eq)
  from h1 h2 assignTask_unregistered_discards [OF h1 h2] show ?thesis by simp
qed

end
